theory Spec2Isabelle
  imports Main
begin

section \<open>On-call schedule planner: the constraint model of Exploration.ipynb\<close>

text \<open>
  The notebook builds one CP-SAT model: cell 1 holds the inputs, cell 2 allocates the
  decision variables, cells 3 to 6 emit the hard constraints, cells 7 to 12 the cost
  terms and cell 13 the objective. The solver is external; what it accepts is recorded
  here as the list of declared variables (with their domains) and the list of emitted
  constraints, and an assignment of integers to variables satisfies the model when it
  respects every domain and every constraint.

  Slot counts, slot indices and employees are natural numbers, target workloads are
  integers. The notebook's global \<open>model\<close> is threaded through the cells as a value; a
  Python exception ends the construction with \<open>Inl\<close> of the error: \<open>KeyError\<close> and
  \<open>ValueError\<close> are raised by Python itself, \<open>TypeError\<close> by the solver library, whose
  linear expressions take integers of the signed 64-bit range only.
\<close>

subsection \<open>Inputs (cell 1)\<close>

datatype error = KeyError | ValueError | TypeError

text \<open>
  Employees and slots are the notebook's list elements and \<open>range\<close> indices. The
  target workloads and the employee constraints are dictionaries; a constraint entry is
  \<open>None\<close>, \<open>True\<close> or \<open>False\<close>. Reading a missing key raises \<open>KeyError\<close>.
\<close>

record config =
  amountTimeSlots :: nat
  timeSlotsWorkday :: "nat list"
  amountEmployees :: nat
  normalEmployees :: "nat list"
  escalationEmployees :: "nat list"
  targetWorkloadNormal :: "nat \<rightharpoonup> int"
  targetWorkloadEscalation :: "nat \<rightharpoonup> int"
  normalEmployeeConstraints :: "nat \<times> nat \<rightharpoonup> bool option"
  escalationEmployeeConstraints :: "nat \<times> nat \<rightharpoonup> bool option"

definition timeSlots :: "config \<Rightarrow> nat list" where
  "timeSlots c = [0..<amountTimeSlots c]"

definition timeSlotsFree :: "config \<Rightarrow> nat list" where
  "timeSlotsFree c = filter (\<lambda>t. t \<notin> set (timeSlotsWorkday c)) (timeSlots c)"


definition lookup :: "('k \<rightharpoonup> 'v) \<Rightarrow> 'k \<Rightarrow> error + 'v" where
  "lookup d k = (case d k of None \<Rightarrow> Inl KeyError | Some v \<Rightarrow> Inr v)"

definition in_int64 :: "int \<Rightarrow> bool" where
  "in_int64 k \<longleftrightarrow> - (2 ^ 63) \<le> k \<and> k < 2 ^ 63"

subsection \<open>The solver's model: variables, expressions, constraints\<close>

text \<open>
  \<open>NVar e t\<close> is the variable stored at \<open>assignedNormalTimeSlots[(e,t)]\<close>, \<open>EVar e t\<close>
  the one at \<open>assignedEscalationTimeSlots[(e,t)]\<close>; \<open>IVar k\<close> is the integer variable
  created when the model already held \<open>k\<close> variables (the solver's own index). The
  display names passed to \<open>NewBoolVar\<close> and \<open>NewIntVar\<close> play no role and are left out.
\<close>

datatype var = NVar nat nat | EVar nat nat | IVar nat

datatype expr = Const int | VarE var | AddE expr expr | SubE expr expr | MulE int expr

datatype lit = Pos var | Neg var

datatype constr =
    LinEq expr expr
  | Implication lit lit
  | MaxEquality var "var list"

record cp_model =
  variables :: "(var \<times> int \<times> int) list"
  constraints :: "constr list"
  objective :: "expr option"

definition CpModel :: cp_model where
  "CpModel = \<lparr>variables = [], constraints = [], objective = None\<rparr>"

definition NewBoolVar :: "var \<Rightarrow> cp_model \<Rightarrow> cp_model" where
  "NewBoolVar v m = m\<lparr>variables := variables m @ [(v, 0, 1)]\<rparr>"

definition NewIntVar :: "int \<Rightarrow> int \<Rightarrow> cp_model \<Rightarrow> var \<times> cp_model" where
  "NewIntVar lb ub m =
     (IVar (length (variables m)),
      m\<lparr>variables := variables m @ [(IVar (length (variables m)), lb, ub)]\<rparr>)"

definition Add :: "constr \<Rightarrow> cp_model \<Rightarrow> cp_model" where
  "Add ct m = m\<lparr>constraints := constraints m @ [ct]\<rparr>"

definition Minimize :: "expr \<Rightarrow> cp_model \<Rightarrow> cp_model" where
  "Minimize obj m = m\<lparr>objective := Some obj\<rparr>"

text \<open>Python's \<open>sum\<close> starts from 0 and adds the items from left to right.\<close>

definition sum_py :: "expr list \<Rightarrow> expr" where
  "sum_py xs = foldl AddE (Const 0) xs"

subsection \<open>What an assignment satisfies\<close>

fun eval :: "(var \<Rightarrow> int) \<Rightarrow> expr \<Rightarrow> int" where
  "eval s (Const k) = k"
| "eval s (VarE v) = s v"
| "eval s (AddE a b) = eval s a + eval s b"
| "eval s (SubE a b) = eval s a - eval s b"
| "eval s (MulE k a) = k * eval s a"

fun lit_true :: "(var \<Rightarrow> int) \<Rightarrow> lit \<Rightarrow> bool" where
  "lit_true s (Pos v) = (s v = 1)"
| "lit_true s (Neg v) = (s v = 0)"

text \<open>A max-equality over no variables is rejected by the solver: nothing satisfies it.\<close>

fun holds :: "(var \<Rightarrow> int) \<Rightarrow> constr \<Rightarrow> bool" where
  "holds s (LinEq a b) = (eval s a = eval s b)"
| "holds s (Implication a b) = (lit_true s a \<longrightarrow> lit_true s b)"
| "holds s (MaxEquality t vs) = (vs \<noteq> [] \<and> s t = Max (set (map s vs)))"

fun in_domain :: "(var \<Rightarrow> int) \<Rightarrow> var \<times> int \<times> int \<Rightarrow> bool" where
  "in_domain s (v, lb, ub) = (lb \<le> s v \<and> s v \<le> ub)"

definition satisfies :: "cp_model \<Rightarrow> (var \<Rightarrow> int) \<Rightarrow> bool" where
  "satisfies m s = (list_all (in_domain s) (variables m) \<and> list_all (holds s) (constraints m))"

definition feasible :: "cp_model \<Rightarrow> bool" where
  "feasible m = (\<exists>s. satisfies m s)"

subsection \<open>Cell 2: decision variables and workload\<close>

definition new_grid :: "(nat \<Rightarrow> nat \<Rightarrow> var) \<Rightarrow> nat list \<Rightarrow> nat list \<Rightarrow> cp_model \<Rightarrow> cp_model" where
  "new_grid grid es ts m = fold (\<lambda>e. fold (\<lambda>t. NewBoolVar (grid e t)) ts) es m"

definition cell2 :: "config \<Rightarrow> cp_model \<Rightarrow> cp_model" where
  "cell2 c m =
     new_grid EVar (escalationEmployees c) (timeSlots c)
       (new_grid NVar (normalEmployees c) (timeSlots c) m)"

definition workload :: "(nat \<Rightarrow> nat \<Rightarrow> var) \<Rightarrow> nat list \<Rightarrow> nat \<Rightarrow> expr" where
  "workload inModel inTimeSlots employee =
     sum_py (map (\<lambda>t. VarE (inModel employee t)) inTimeSlots)"

subsection \<open>Cells 3 to 6: the hard constraints\<close>

fun foldM :: "('a \<Rightarrow> 's \<Rightarrow> error + 's) \<Rightarrow> 'a list \<Rightarrow> 's \<Rightarrow> error + 's" where
  "foldM f [] s = Inr s"
| "foldM f (x # xs) s = (case f x s of Inl err \<Rightarrow> Inl err | Inr s' \<Rightarrow> foldM f xs s')"

text \<open>
  Cell 3. The entry is read first (a missing key raises), then compared with \<open>None\<close>;
  \<open>True\<close> and \<open>False\<close> are the integers 1 and 0 in the emitted equality.
\<close>

definition respect_step ::
  "(nat \<Rightarrow> nat \<Rightarrow> var) \<Rightarrow> (nat \<times> nat \<rightharpoonup> bool option) \<Rightarrow> nat \<Rightarrow> nat \<Rightarrow> cp_model \<Rightarrow> error + cp_model" where
  "respect_step grid ec e t m =
     (case lookup ec (e, t) of
        Inl err \<Rightarrow> Inl err
      | Inr None \<Rightarrow> Inr m
      | Inr (Some b) \<Rightarrow> Inr (Add (LinEq (VarE (grid e t)) (Const (if b then 1 else 0))) m))"

definition respect ::
  "(nat \<Rightarrow> nat \<Rightarrow> var) \<Rightarrow> (nat \<times> nat \<rightharpoonup> bool option) \<Rightarrow> nat list \<Rightarrow> nat list \<Rightarrow> cp_model \<Rightarrow> error + cp_model" where
  "respect grid ec es ts m = foldM (\<lambda>e. foldM (\<lambda>t. respect_step grid ec e t) ts) es m"

definition cell3 :: "config \<Rightarrow> cp_model \<Rightarrow> error + cp_model" where
  "cell3 c m =
     (case respect NVar (normalEmployeeConstraints c) (normalEmployees c) (timeSlots c) m of
        Inl err \<Rightarrow> Inl err
      | Inr m' \<Rightarrow> respect EVar (escalationEmployeeConstraints c) (escalationEmployees c) (timeSlots c) m')"

definition exactly_one :: "(nat \<Rightarrow> nat \<Rightarrow> var) \<Rightarrow> nat list \<Rightarrow> nat \<Rightarrow> constr" where
  "exactly_one grid es t = LinEq (sum_py (map (\<lambda>e. VarE (grid e t)) es)) (Const 1)"

definition cell4 :: "config \<Rightarrow> cp_model \<Rightarrow> cp_model" where
  "cell4 c m =
     fold (\<lambda>t m. Add (exactly_one EVar (escalationEmployees c) t)
                   (Add (exactly_one NVar (normalEmployees c) t) m))
          (timeSlots c) m"

definition cell5 :: "config \<Rightarrow> cp_model \<Rightarrow> cp_model" where
  "cell5 c m =
     fold (\<lambda>t. fold (\<lambda>e. Add (Implication (Pos (NVar e t)) (Neg (EVar e t))))
                     (filter (\<lambda>e. e \<in> set (normalEmployees c)) (escalationEmployees c)))
          [0..<amountTimeSlots c - 1] m"

definition cell6 :: "config \<Rightarrow> cp_model \<Rightarrow> cp_model" where
  "cell6 c m =
     fold (\<lambda>t. fold (\<lambda>e. Add (Implication (Pos (NVar e t)) (Neg (NVar e (t + 1)))))
                     (normalEmployees c))
          [0..<amountTimeSlots c - 1] m"

definition hard_cells :: "config \<Rightarrow> error + cp_model" where
  "hard_cells c =
     (case cell3 c (cell2 c CpModel) of
        Inl err \<Rightarrow> Inl err
      | Inr m \<Rightarrow> Inr (cell6 c (cell5 c (cell4 c m))))"

subsection \<open>Cells 7 to 9: rotation costs\<close>

definition calcAbsMinus :: "nat \<Rightarrow> expr \<Rightarrow> expr \<Rightarrow> cp_model \<Rightarrow> var \<times> cp_model" where
  "calcAbsMinus n m1 m2 m =
     (let (m1IntVar, ma) = NewIntVar (- int n) (int n) m;
          (m2IntVar, mb) = NewIntVar (- int n) (int n) ma;
          (absValueIntVar, mc) = NewIntVar (- int n) (int n) mb;
          md = Add (LinEq (VarE m1IntVar) (SubE m1 m2)) mc;
          me = Add (LinEq (VarE m2IntVar) (SubE m2 m1)) md;
          mf = Add (MaxEquality absValueIntVar [m1IntVar, m2IntVar]) me
      in (absValueIntVar, mf))"

text \<open>
  \<open>range(0, stop, step)\<close> raises \<open>ValueError\<close> for step 0 and otherwise has
  \<open>(stop + step - 1) // step\<close> items \<open>0, step, 2 * step, ...\<close>; \<open>xs[i:j]\<close> is cut off at
  the end of the sequence.
\<close>

definition range_step :: "nat \<Rightarrow> nat \<Rightarrow> error + nat list" where
  "range_step stop step =
     (if step = 0 then Inl ValueError
      else Inr (map (\<lambda>k. k * step) [0..<(stop + step - 1) div step]))"

definition slice :: "'a list \<Rightarrow> nat \<Rightarrow> nat \<Rightarrow> 'a list" where
  "slice xs i j = take (j - i) (drop i xs)"

definition rotations_of :: "nat list \<Rightarrow> nat list \<Rightarrow> error + nat list list" where
  "rotations_of ts es =
     (case range_step (length ts) (length es) of
        Inl err \<Rightarrow> Inl err
      | Inr starts \<Rightarrow> Inr (map (\<lambda>i. slice ts i (i + length es)) starts))"

record rotation_cost =
  cost :: expr
  perEmployee :: "nat \<times> nat list \<rightharpoonup> var"
  rmodel :: cp_model

definition rotation_step ::
  "nat \<Rightarrow> (nat \<Rightarrow> nat \<Rightarrow> var) \<Rightarrow> nat list \<Rightarrow> nat \<Rightarrow> rotation_cost \<Rightarrow> rotation_cost" where
  "rotation_step n grid r e st =
     (let (v, m') = calcAbsMinus n (workload grid r e) (Const 1) (rmodel st)
      in \<lparr>cost = AddE (cost st) (VarE v),
          perEmployee = (perEmployee st)((e, r) \<mapsto> v),
          rmodel = m'\<rparr>)"

definition rotation_loop ::
  "nat \<Rightarrow> (nat \<Rightarrow> nat \<Rightarrow> var) \<Rightarrow> nat list \<Rightarrow> nat list list \<Rightarrow> cp_model \<Rightarrow> rotation_cost" where
  "rotation_loop n grid es rs m =
     fold (\<lambda>r. fold (\<lambda>e. rotation_step n grid r e) es) rs
          \<lparr>cost = Const 0, perEmployee = Map.empty, rmodel = m\<rparr>"

definition rotations_max :: "nat list list \<Rightarrow> nat list \<Rightarrow> int" where
  "rotations_max rs es = int (length rs) * 2 * (int (length es) - 1)"

subsection \<open>Cells 10 to 12: target-workload costs\<close>

fun mapM_st :: "('a \<Rightarrow> 's \<Rightarrow> error + 'b \<times> 's) \<Rightarrow> 'a list \<Rightarrow> 's \<Rightarrow> error + 'b list \<times> 's" where
  "mapM_st f [] s = Inr ([], s)"
| "mapM_st f (x # xs) s =
     (case f x s of
        Inl err \<Rightarrow> Inl err
      | Inr (y, s') \<Rightarrow>
          (case mapM_st f xs s' of
             Inl err \<Rightarrow> Inl err
           | Inr (ys, s'') \<Rightarrow> Inr (y # ys, s'')))"

text \<open>
  The list comprehension of cells 10 and 12 evaluates
  \<open>calcAbsMinus(workload(grid, timeSlotsFree, e), target[e])\<close> for each pool member in
  turn. Reading \<open>target[e]\<close> raises \<open>KeyError\<close> for a missing key. The target is a Python
  integer of any size; \<open>calcAbsMinus\<close> subtracts it from the workload, and the solver
  library raises \<open>TypeError\<close> for an integer outside the signed 64-bit range. The other
  integer handed to \<open>calcAbsMinus\<close>, in cells 8 and 9, is the literal 1.
\<close>

definition target_step ::
  "nat \<Rightarrow> (nat \<Rightarrow> nat \<Rightarrow> var) \<Rightarrow> nat list \<Rightarrow> (nat \<rightharpoonup> int) \<Rightarrow> nat \<Rightarrow> cp_model \<Rightarrow> error + var \<times> cp_model" where
  "target_step n grid free twl e m =
     (case lookup twl e of
        Inl err \<Rightarrow> Inl err
      | Inr tw \<Rightarrow>
          if in_int64 tw then Inr (calcAbsMinus n (workload grid free e) (Const tw) m)
          else Inl TypeError)"

definition target_cost ::
  "nat \<Rightarrow> (nat \<Rightarrow> nat \<Rightarrow> var) \<Rightarrow> nat list \<Rightarrow> (nat \<rightharpoonup> int) \<Rightarrow> nat list \<Rightarrow> cp_model \<Rightarrow> error + var \<times> cp_model" where
  "target_cost n grid free twl es m =
     (let (costVar, m') = NewIntVar 0 (int (length free)) m
      in case mapM_st (target_step n grid free twl) es m' of
           Inl err \<Rightarrow> Inl err
         | Inr (vs, m'') \<Rightarrow> Inr (costVar, Add (MaxEquality costVar vs) m''))"

subsection \<open>Cell 13 and the whole notebook\<close>

record built =
  model :: cp_model
  rotations :: "nat list list"
  costRotations :: expr
  costRotationPerEmployee :: "nat \<times> nat list \<rightharpoonup> var"
  costRotationsMax :: int
  rotationsEscalation :: "nat list list"
  costRotationsEscalation :: expr
  costRotationEscalationPerEmployee :: "nat \<times> nat list \<rightharpoonup> var"
  costRotationsEscalationMax :: int
  costTargetWorkloadEscalation :: var
  costTargetWorkloadEscalationMax :: int
  costTargetWorkload :: var
  costOverall :: expr

definition overall :: "expr \<Rightarrow> int \<Rightarrow> expr \<Rightarrow> int \<Rightarrow> var \<Rightarrow> int \<Rightarrow> var \<Rightarrow> expr" where
  "overall cRE maxRE cR maxR cTE maxTE cT =
     AddE (AddE (AddE cRE (MulE maxRE cR)) (MulE (maxRE * maxR) (VarE cTE)))
          (MulE (maxRE * maxR * maxTE) (VarE cT))"

definition cost_cells :: "config \<Rightarrow> cp_model \<Rightarrow> error + built" where
  "cost_cells c m =
     (case rotations_of (timeSlots c) (normalEmployees c) of
        Inl err \<Rightarrow> Inl err
      | Inr rs \<Rightarrow>
     (let rn = rotation_loop (amountTimeSlots c) NVar (normalEmployees c) rs m
      in case rotations_of (timeSlots c) (escalationEmployees c) of
        Inl err \<Rightarrow> Inl err
      | Inr rsE \<Rightarrow>
     (let re = rotation_loop (amountTimeSlots c) EVar (escalationEmployees c) rsE (rmodel rn)
      in case target_cost (amountTimeSlots c) EVar (timeSlotsFree c)
                (targetWorkloadEscalation c) (escalationEmployees c) (rmodel re) of
        Inl err \<Rightarrow> Inl err
      | Inr (cTE, mTE) \<Rightarrow>
     (case target_cost (amountTimeSlots c) NVar (timeSlotsFree c)
                (targetWorkloadNormal c) (normalEmployees c) mTE of
        Inl err \<Rightarrow> Inl err
      | Inr (cT, mT) \<Rightarrow>
     (let maxR = rotations_max rs (normalEmployees c);
          maxRE = rotations_max rsE (escalationEmployees c);
          maxTE = int (length (timeSlotsFree c));
          obj = overall (cost re) maxRE (cost rn) maxR cTE maxTE cT
      in Inr \<lparr>model = Minimize obj mT,
              rotations = rs,
              costRotations = cost rn,
              costRotationPerEmployee = perEmployee rn,
              costRotationsMax = maxR,
              rotationsEscalation = rsE,
              costRotationsEscalation = cost re,
              costRotationEscalationPerEmployee = perEmployee re,
              costRotationsEscalationMax = maxRE,
              costTargetWorkloadEscalation = cTE,
              costTargetWorkloadEscalationMax = maxTE,
              costTargetWorkload = cT,
              costOverall = obj\<rparr>)))))"

definition build :: "config \<Rightarrow> error + built" where
  "build c = (case hard_cells c of Inl err \<Rightarrow> Inl err | Inr m \<Rightarrow> cost_cells c m)"

section \<open>Cell 1: the dictionaries, the notebook's input and smaller inputs\<close>

text \<open>
  Cell 1 fills both constraint dictionaries with \<open>None\<close> for every pool member and slot
  and both target dictionaries with 0, then overwrites single entries. The values below are
  the notebook's own, and \<open>notebook_output\<close> is the schedule printed under its last cell.
\<close>

definition init_constraints :: "nat list \<Rightarrow> nat list \<Rightarrow> nat \<times> nat \<rightharpoonup> bool option" where
  "init_constraints es ts = fold (\<lambda>e. fold (\<lambda>t d. d((e, t) \<mapsto> None)) ts) es Map.empty"

definition init_targets :: "nat list \<Rightarrow> nat \<rightharpoonup> int" where
  "init_targets es = fold (\<lambda>e d. d(e \<mapsto> 0)) es Map.empty"

definition notebook :: config where
  "notebook =
     \<lparr>amountTimeSlots = 16,
      timeSlotsWorkday = [1, 2, 5, 6, 9, 10, 13, 14],
      amountEmployees = 5,
      normalEmployees = [1, 2, 3, 4],
      escalationEmployees = [0, 1, 2],
      targetWorkloadNormal = init_targets [1, 2, 3, 4],
      targetWorkloadEscalation = (init_targets [0, 1, 2])(2 \<mapsto> 2, 1 \<mapsto> 2, 0 \<mapsto> 2),
      normalEmployeeConstraints =
        (init_constraints [1, 2, 3, 4] [0..<16])((1, 0) \<mapsto> Some False, (2, 0) \<mapsto> Some False),
      escalationEmployeeConstraints =
        (init_constraints [0, 1, 2] [0..<16])
          ((2, 0) \<mapsto> Some True, (0, 1) \<mapsto> Some False, (1, 1) \<mapsto> Some False,
           (0, 2) \<mapsto> Some False, (1, 2) \<mapsto> Some False)\<rparr>"

text \<open>
  A schedule given as the normal and the escalation employee of every slot, read as an
  assignment: the decision variable of the listed employee is 1, every other variable 0.
\<close>

definition schedule :: "nat list \<Rightarrow> nat list \<Rightarrow> var \<Rightarrow> int" where
  "schedule ns es v =
     (case v of
        NVar e t \<Rightarrow> if t < length ns \<and> ns ! t = e then 1 else 0
      | EVar e t \<Rightarrow> if t < length es \<and> es ! t = e then 1 else 0
      | IVar k \<Rightarrow> 0)"

definition notebook_output :: "var \<Rightarrow> int" where
  "notebook_output =
     schedule [3, 1, 4, 2, 4, 3, 2, 1, 3, 1, 2, 4, 1, 3, 4, 2]
              [2, 2, 2, 0, 1, 2, 1, 2, 0, 2, 0, 1, 0, 1, 2, 2]"

text \<open>A single slot, one normal and one escalation employee, everything else as in cell 1.\<close>

definition solo :: config where
  "solo =
     \<lparr>amountTimeSlots = 1,
      timeSlotsWorkday = [],
      amountEmployees = 2,
      normalEmployees = [0],
      escalationEmployees = [1],
      targetWorkloadNormal = init_targets [0],
      targetWorkloadEscalation = init_targets [1],
      normalEmployeeConstraints = init_constraints [0] [0..<1],
      escalationEmployeeConstraints = init_constraints [1] [0..<1]\<rparr>"

text \<open>
  Three slots, all of them working hours, three normal and two other escalation employees;
  targets and constraints as cell 1 initialises them.
\<close>

definition trio :: config where
  "trio =
     \<lparr>amountTimeSlots = 3,
      timeSlotsWorkday = [0, 1, 2],
      amountEmployees = 5,
      normalEmployees = [0, 1, 2],
      escalationEmployees = [3, 4],
      targetWorkloadNormal = init_targets [0, 1, 2],
      targetWorkloadEscalation = init_targets [3, 4],
      normalEmployeeConstraints = init_constraints [0, 1, 2] [0..<3],
      escalationEmployeeConstraints = init_constraints [3, 4] [0..<3]\<rparr>"

text \<open>The one-slot input with an escalation target of 5 for its only escalation employee.\<close>

definition greedy :: config where
  "greedy = solo\<lparr>targetWorkloadEscalation := (init_targets [1])(1 \<mapsto> 5)\<rparr>"

text \<open>Two slots, one normal and one escalation employee, nothing forced.\<close>

definition lonely :: config where
  "lonely =
     \<lparr>amountTimeSlots = 2,
      timeSlotsWorkday = [],
      amountEmployees = 2,
      normalEmployees = [0],
      escalationEmployees = [1],
      targetWorkloadNormal = init_targets [0],
      targetWorkloadEscalation = init_targets [1],
      normalEmployeeConstraints = init_constraints [0] [0..<2],
      escalationEmployeeConstraints = init_constraints [1] [0..<2]\<rparr>"


text \<open>
  Three free slots, two normal employees and one other escalation employee; targets and
  constraints as cell 1 initialises them.
\<close>

definition duo :: config where
  "duo =
     \<lparr>amountTimeSlots = 3,
      timeSlotsWorkday = [],
      amountEmployees = 3,
      normalEmployees = [0, 1],
      escalationEmployees = [2],
      targetWorkloadNormal = init_targets [0, 1],
      targetWorkloadEscalation = init_targets [2],
      normalEmployeeConstraints = init_constraints [0, 1] [0..<3],
      escalationEmployeeConstraints = init_constraints [2] [0..<3]\<rparr>"

text \<open>
  Two free slots, two normal and two other escalation employees; escalation employee 2 has
  the target 3, everything else is as cell 1 initialises it.
\<close>

definition pair :: config where
  "pair =
     \<lparr>amountTimeSlots = 2,
      timeSlotsWorkday = [],
      amountEmployees = 4,
      normalEmployees = [0, 1],
      escalationEmployees = [2, 3],
      targetWorkloadNormal = init_targets [0, 1],
      targetWorkloadEscalation = (init_targets [2, 3])(2 \<mapsto> 3),
      normalEmployeeConstraints = init_constraints [0, 1] [0..<2],
      escalationEmployeeConstraints = init_constraints [2, 3] [0..<2]\<rparr>"

text \<open>
  An assignment for one call of \<open>calcAbsMinus\<close> on a model that holds one decision
  variable: the decision variable is 0, the first auxiliary variable -1, the two others 1.
\<close>

definition abs_demo :: "var \<Rightarrow> int" where
  "abs_demo v = (case v of IVar k \<Rightarrow> if k = 1 then - 1 else 1 | _ \<Rightarrow> 0)"

section \<open>Conditions and proof devices\<close>

text \<open>
  The condition of the feasibility claim, for one role: in every slot some pool member is
  not forced off, and no two pool members are forced on.
\<close>

definition forced_ok :: "(nat \<times> nat \<rightharpoonup> bool option) \<Rightarrow> nat list \<Rightarrow> nat \<Rightarrow> bool" where
  "forced_ok ec es n =
     (\<forall>t<n. (\<exists>e\<in>set es. ec (e, t) \<noteq> Some (Some False))
           \<and> (\<forall>e\<in>set es. \<forall>e'\<in>set es.
                 ec (e, t) = Some (Some True) \<and> ec (e', t) = Some (Some True) \<longrightarrow> e = e'))"

text \<open>
  A proof device: every entry of a per-employee cost dictionary holds the absolute
  deviation of that employee's workload in that rotation from 1.
\<close>

definition per_ok :: "(var \<Rightarrow> int) \<Rightarrow> (nat \<Rightarrow> nat \<Rightarrow> var) \<Rightarrow> (nat \<times> nat list \<rightharpoonup> var) \<Rightarrow> bool" where
  "per_ok s g per = (\<forall>e r v. per (e, r) = Some v \<longrightarrow> s v = \<bar>eval s (workload g r e) - 1\<bar>)"

text \<open>
  Proof devices for extending an assignment: \<open>var_below k\<close> holds of the grid variables and of
  the integer variables created before the model held \<open>k\<close> variables; two assignments agree
  below \<open>k\<close> when they give these variables the same values.
\<close>

fun var_below :: "nat \<Rightarrow> var \<Rightarrow> bool" where
  "var_below k (IVar j) = (j < k)"
| "var_below k (NVar e t) = True"
| "var_below k (EVar e t) = True"

fun expr_below :: "nat \<Rightarrow> expr \<Rightarrow> bool" where
  "expr_below k (Const c) = True"
| "expr_below k (VarE v) = var_below k v"
| "expr_below k (AddE a b) = (expr_below k a \<and> expr_below k b)"
| "expr_below k (SubE a b) = (expr_below k a \<and> expr_below k b)"
| "expr_below k (MulE c a) = expr_below k a"

fun lit_var :: "lit \<Rightarrow> var" where
  "lit_var (Pos v) = v"
| "lit_var (Neg v) = v"

fun constr_below :: "nat \<Rightarrow> constr \<Rightarrow> bool" where
  "constr_below k (LinEq a b) = (expr_below k a \<and> expr_below k b)"
| "constr_below k (Implication a b) = (var_below k (lit_var a) \<and> var_below k (lit_var b))"
| "constr_below k (MaxEquality t vs) = (var_below k t \<and> list_all (var_below k) vs)"

definition model_below :: "cp_model \<Rightarrow> bool" where
  "model_below m =
     (list_all (\<lambda>d. var_below (length (variables m)) (fst d)) (variables m)
      \<and> list_all (constr_below (length (variables m))) (constraints m))"

definition agree :: "nat \<Rightarrow> (var \<Rightarrow> int) \<Rightarrow> (var \<Rightarrow> int) \<Rightarrow> bool" where
  "agree k s s' = (\<forall>v. var_below k v \<longrightarrow> s' v = s v)"

definition extends_to :: "cp_model \<Rightarrow> (var \<Rightarrow> int) \<Rightarrow> cp_model \<Rightarrow> bool" where
  "extends_to m s m' =
     (model_below m' \<and> length (variables m) \<le> length (variables m')
      \<and> (\<exists>s'. agree (length (variables m)) s s' \<and> satisfies m' s'))"

text \<open>
  A pool member's target can be subtracted from a workload: the dictionary has the key
  and the value fits the solver's integers.
\<close>

definition target_ok :: "(nat \<rightharpoonup> int) \<Rightarrow> nat \<Rightarrow> bool" where
  "target_ok twl e \<longleftrightarrow> (\<exists>tw. twl e = Some tw \<and> in_int64 tw)"



section \<open>Properties of the model builder\<close>

lemma eval_foldl_AddE: "eval s (foldl AddE a xs) = eval s a + sum_list (map (eval s) xs)"
  by (induction xs arbitrary: a) auto

lemma eval_sum_py: "eval s (sum_py xs) = sum_list (map (eval s) xs)"
  by (simp add: sum_py_def eval_foldl_AddE)

lemma eval_workload: "eval s (workload g ts e) = (\<Sum>t\<leftarrow>ts. s (g e t))"
  by (simp add: workload_def eval_sum_py comp_def)

lemma satisfies_Add: "satisfies (Add ct m) s \<longleftrightarrow> satisfies m s \<and> holds s ct"
  by (auto simp: satisfies_def Add_def)

lemma satisfies_NewBoolVar: "satisfies (NewBoolVar v m) s \<longleftrightarrow> satisfies m s \<and> 0 \<le> s v \<and> s v \<le> 1"
  by (auto simp: satisfies_def NewBoolVar_def)

lemma satisfies_NewIntVar:
  "NewIntVar lb ub m = (v, m') \<Longrightarrow> satisfies m' s \<longleftrightarrow> satisfies m s \<and> lb \<le> s v \<and> s v \<le> ub"
  by (auto simp: satisfies_def NewIntVar_def)

lemma satisfies_Minimize: "satisfies (Minimize obj m) s \<longleftrightarrow> satisfies m s"
  by (simp add: satisfies_def Minimize_def)

lemma satisfies_fold:
  assumes "\<And>x m. x \<in> set xs \<Longrightarrow> satisfies (f x m) s \<longleftrightarrow> satisfies m s \<and> P x"
  shows "satisfies (fold f xs m) s \<longleftrightarrow> satisfies m s \<and> (\<forall>x\<in>set xs. P x)"
  using assms by (induction xs arbitrary: m) auto

lemma satisfies_foldM:
  assumes "foldM f xs m = Inr m'"
    and "\<And>x m m'. x \<in> set xs \<Longrightarrow> f x m = Inr m' \<Longrightarrow> satisfies m' s \<longleftrightarrow> satisfies m s \<and> P x"
  shows "satisfies m' s \<longleftrightarrow> satisfies m s \<and> (\<forall>x\<in>set xs. P x)"
  using assms
proof (induction xs arbitrary: m)
  case Nil
  then show ?case by simp
next
  case (Cons x xs)
  from Cons.prems(1) obtain m1 where fx: "f x m = Inr m1" and rest: "foldM f xs m1 = Inr m'"
    by (auto split: sum.splits)
  have "satisfies m' s \<longleftrightarrow> satisfies m1 s \<and> (\<forall>x\<in>set xs. P x)"
    using Cons.IH [OF rest] Cons.prems(2) by simp
  moreover have "satisfies m1 s \<longleftrightarrow> satisfies m s \<and> P x"
    using Cons.prems(2) [OF _ fx] by simp
  ultimately show ?case by auto
qed

lemma foldM_succeeds:
  assumes "\<And>x m. x \<in> set xs \<Longrightarrow> (\<exists>m'. f x m = Inr m') \<longleftrightarrow> Q x"
  shows "(\<exists>m'. foldM f xs m = Inr m') \<longleftrightarrow> (\<forall>x\<in>set xs. Q x)"
  using assms
proof (induction xs arbitrary: m)
  case Nil
  then show ?case by simp
next
  case (Cons x xs)
  show ?case
  proof (cases "f x m")
    case (Inl err)
    then have "\<not> Q x" using Cons.prems [of x m] by simp
    with Inl show ?thesis by simp
  next
    case (Inr m1)
    then have "Q x" using Cons.prems [of x m] by auto
    moreover have "(\<exists>m'. foldM f xs m1 = Inr m') \<longleftrightarrow> (\<forall>x\<in>set xs. Q x)"
      using Cons.IH [of m1] Cons.prems by simp
    ultimately show ?thesis using Inr by simp
  qed
qed

subsection \<open>What each hard-constraint cell adds\<close>

lemma satisfies_new_grid:
  "satisfies (new_grid g es ts m) s \<longleftrightarrow>
     satisfies m s \<and> (\<forall>e\<in>set es. \<forall>t\<in>set ts. 0 \<le> s (g e t) \<and> s (g e t) \<le> 1)"
  unfolding new_grid_def
  by (rule satisfies_fold, rule satisfies_fold, rule satisfies_NewBoolVar)

lemma satisfies_cell2:
  "satisfies (cell2 c m) s \<longleftrightarrow>
     satisfies m s
     \<and> (\<forall>e\<in>set (normalEmployees c). \<forall>t<amountTimeSlots c. 0 \<le> s (NVar e t) \<and> s (NVar e t) \<le> 1)
     \<and> (\<forall>e\<in>set (escalationEmployees c). \<forall>t<amountTimeSlots c. 0 \<le> s (EVar e t) \<and> s (EVar e t) \<le> 1)"
  by (auto simp: cell2_def satisfies_new_grid timeSlots_def)

lemma respect_step_sat:
  "respect_step g ec e t m = Inr m' \<Longrightarrow>
   satisfies m' s \<longleftrightarrow> satisfies m s \<and> (\<forall>b. ec (e, t) = Some (Some b) \<longrightarrow> s (g e t) = (if b then 1 else 0))"
  by (auto simp: respect_step_def lookup_def satisfies_Add split: option.splits if_splits)

lemma satisfies_respect:
  assumes "respect g ec es ts m = Inr m'"
  shows "satisfies m' s \<longleftrightarrow>
     satisfies m s \<and> (\<forall>e\<in>set es. \<forall>t\<in>set ts. \<forall>b. ec (e, t) = Some (Some b) \<longrightarrow> s (g e t) = (if b then 1 else 0))"
  using assms unfolding respect_def
  by (rule satisfies_foldM) (erule satisfies_foldM, erule respect_step_sat)

lemma respect_step_succeeds: "(\<exists>m'. respect_step g ec e t m = Inr m') \<longleftrightarrow> ec (e, t) \<noteq> None"
  by (auto simp: respect_step_def lookup_def split: option.splits)

lemma respect_succeeds:
  "(\<exists>m'. respect g ec es ts m = Inr m') \<longleftrightarrow> (\<forall>e\<in>set es. \<forall>t\<in>set ts. ec (e, t) \<noteq> None)"
  unfolding respect_def
  by (rule foldM_succeeds, rule foldM_succeeds, rule respect_step_succeeds)

lemma satisfies_cell4:
  "satisfies (cell4 c m) s \<longleftrightarrow>
     satisfies m s \<and> (\<forall>t<amountTimeSlots c.
        (\<Sum>e\<leftarrow>normalEmployees c. s (NVar e t)) = 1 \<and> (\<Sum>e\<leftarrow>escalationEmployees c. s (EVar e t)) = 1)"
proof -
  have "satisfies (cell4 c m) s \<longleftrightarrow>
     satisfies m s \<and> (\<forall>t\<in>set (timeSlots c).
        (\<Sum>e\<leftarrow>normalEmployees c. s (NVar e t)) = 1 \<and> (\<Sum>e\<leftarrow>escalationEmployees c. s (EVar e t)) = 1)"
    unfolding cell4_def
    by (rule satisfies_fold) (auto simp: satisfies_Add exactly_one_def eval_sum_py comp_def)
  then show ?thesis by (auto simp: timeSlots_def)
qed

lemma satisfies_cell5:
  "satisfies (cell5 c m) s \<longleftrightarrow>
     satisfies m s \<and> (\<forall>t<amountTimeSlots c - 1. \<forall>e\<in>set (escalationEmployees c) \<inter> set (normalEmployees c).
        s (NVar e t) = 1 \<longrightarrow> s (EVar e t) = 0)"
proof -
  have "satisfies (cell5 c m) s \<longleftrightarrow>
     satisfies m s \<and> (\<forall>t\<in>set [0..<amountTimeSlots c - 1].
        \<forall>e\<in>set (filter (\<lambda>e. e \<in> set (normalEmployees c)) (escalationEmployees c)).
        s (NVar e t) = 1 \<longrightarrow> s (EVar e t) = 0)"
    unfolding cell5_def
    by (rule satisfies_fold, rule satisfies_fold) (simp add: satisfies_Add)
  then show ?thesis by auto
qed

lemma satisfies_cell6:
  "satisfies (cell6 c m) s \<longleftrightarrow>
     satisfies m s \<and> (\<forall>t<amountTimeSlots c - 1. \<forall>e\<in>set (normalEmployees c).
        s (NVar e t) = 1 \<longrightarrow> s (NVar e (t + 1)) = 0)"
proof -
  have "satisfies (cell6 c m) s \<longleftrightarrow>
     satisfies m s \<and> (\<forall>t\<in>set [0..<amountTimeSlots c - 1]. \<forall>e\<in>set (normalEmployees c).
        s (NVar e t) = 1 \<longrightarrow> s (NVar e (t + 1)) = 0)"
    unfolding cell6_def
    by (rule satisfies_fold, rule satisfies_fold) (simp add: satisfies_Add)
  then show ?thesis by auto
qed

lemma satisfies_CpModel: "satisfies CpModel s"
  by (simp add: satisfies_def CpModel_def)

lemma satisfies_hard_cells:
  assumes "hard_cells c = Inr m"
  shows "satisfies m s \<longleftrightarrow>
     (\<forall>e\<in>set (normalEmployees c). \<forall>t<amountTimeSlots c. 0 \<le> s (NVar e t) \<and> s (NVar e t) \<le> 1)
   \<and> (\<forall>e\<in>set (escalationEmployees c). \<forall>t<amountTimeSlots c. 0 \<le> s (EVar e t) \<and> s (EVar e t) \<le> 1)
   \<and> (\<forall>e\<in>set (normalEmployees c). \<forall>t<amountTimeSlots c. \<forall>b.
         normalEmployeeConstraints c (e, t) = Some (Some b) \<longrightarrow> s (NVar e t) = (if b then 1 else 0))
   \<and> (\<forall>e\<in>set (escalationEmployees c). \<forall>t<amountTimeSlots c. \<forall>b.
         escalationEmployeeConstraints c (e, t) = Some (Some b) \<longrightarrow> s (EVar e t) = (if b then 1 else 0))
   \<and> (\<forall>t<amountTimeSlots c.
         (\<Sum>e\<leftarrow>normalEmployees c. s (NVar e t)) = 1 \<and> (\<Sum>e\<leftarrow>escalationEmployees c. s (EVar e t)) = 1)
   \<and> (\<forall>t<amountTimeSlots c - 1. \<forall>e\<in>set (escalationEmployees c) \<inter> set (normalEmployees c).
         s (NVar e t) = 1 \<longrightarrow> s (EVar e t) = 0)
   \<and> (\<forall>t<amountTimeSlots c - 1. \<forall>e\<in>set (normalEmployees c).
         s (NVar e t) = 1 \<longrightarrow> s (NVar e (t + 1)) = 0)"
proof -
  from assms obtain m3 where m3: "cell3 c (cell2 c CpModel) = Inr m3"
    and m: "m = cell6 c (cell5 c (cell4 c m3))"
    by (auto simp: hard_cells_def split: sum.splits)
  from m3 obtain mn where
    mn: "respect NVar (normalEmployeeConstraints c) (normalEmployees c) (timeSlots c) (cell2 c CpModel) = Inr mn"
    and me: "respect EVar (escalationEmployeeConstraints c) (escalationEmployees c) (timeSlots c) mn = Inr m3"
    by (auto simp: cell3_def split: sum.splits)
  have ts: "set (timeSlots c) = {0..<amountTimeSlots c}"
    by (simp add: timeSlots_def)
  show ?thesis
    unfolding m satisfies_cell6 satisfies_cell5 satisfies_cell4
      satisfies_respect [OF me] satisfies_respect [OF mn] satisfies_cell2 ts
    using satisfies_CpModel by auto
qed

lemma hard_cells_succeeds:
  "(\<exists>m. hard_cells c = Inr m) \<longleftrightarrow>
     (\<forall>e\<in>set (normalEmployees c). \<forall>t<amountTimeSlots c. normalEmployeeConstraints c (e, t) \<noteq> None)
   \<and> (\<forall>e\<in>set (escalationEmployees c). \<forall>t<amountTimeSlots c. escalationEmployeeConstraints c (e, t) \<noteq> None)"
proof -
  have ts: "set (timeSlots c) = {0..<amountTimeSlots c}"
    by (simp add: timeSlots_def)
  have "(\<exists>m. hard_cells c = Inr m) \<longleftrightarrow> (\<exists>m. cell3 c (cell2 c CpModel) = Inr m)"
    by (auto simp: hard_cells_def split: sum.splits)
  also have "\<dots> \<longleftrightarrow>
     (\<exists>mn. respect NVar (normalEmployeeConstraints c) (normalEmployees c) (timeSlots c) (cell2 c CpModel) = Inr mn
        \<and> (\<exists>m. respect EVar (escalationEmployeeConstraints c) (escalationEmployees c) (timeSlots c) mn = Inr m))"
    by (auto simp: cell3_def split: sum.splits)
  also have "\<dots> \<longleftrightarrow>
     (\<exists>mn. respect NVar (normalEmployeeConstraints c) (normalEmployees c) (timeSlots c) (cell2 c CpModel) = Inr mn
        \<and> (\<forall>e\<in>set (escalationEmployees c). \<forall>t\<in>set (timeSlots c). escalationEmployeeConstraints c (e, t) \<noteq> None))"
    by (simp only: respect_succeeds)
  also have "\<dots> \<longleftrightarrow>
     (\<exists>mn. respect NVar (normalEmployeeConstraints c) (normalEmployees c) (timeSlots c) (cell2 c CpModel) = Inr mn)
     \<and> (\<forall>e\<in>set (escalationEmployees c). \<forall>t\<in>set (timeSlots c). escalationEmployeeConstraints c (e, t) \<noteq> None)"
    by blast
  also have "\<dots> \<longleftrightarrow>
     (\<forall>e\<in>set (normalEmployees c). \<forall>t\<in>set (timeSlots c). normalEmployeeConstraints c (e, t) \<noteq> None)
     \<and> (\<forall>e\<in>set (escalationEmployees c). \<forall>t\<in>set (timeSlots c). escalationEmployeeConstraints c (e, t) \<noteq> None)"
    by (simp only: respect_succeeds)
  finally show ?thesis
    unfolding ts by auto
qed

subsection \<open>The absolute-difference helper\<close>

lemma calcAbsMinus_expand:
  "calcAbsMinus n m1 m2 m =
     (IVar (length (variables m) + 2),
      m\<lparr>variables := variables m @
           [(IVar (length (variables m)), - int n, int n),
            (IVar (length (variables m) + 1), - int n, int n),
            (IVar (length (variables m) + 2), - int n, int n)],
        constraints := constraints m @
           [LinEq (VarE (IVar (length (variables m)))) (SubE m1 m2),
            LinEq (VarE (IVar (length (variables m) + 1))) (SubE m2 m1),
            MaxEquality (IVar (length (variables m) + 2))
              [IVar (length (variables m)), IVar (length (variables m) + 1)]]\<rparr>)"
  by (simp add: calcAbsMinus_def NewIntVar_def Add_def Let_def)

lemma satisfies_calcAbsMinus:
  assumes "calcAbsMinus n m1 m2 m = (v, m')"
  shows "satisfies m' s \<longleftrightarrow>
     satisfies m s
     \<and> s (IVar (length (variables m))) = eval s m1 - eval s m2
     \<and> s (IVar (length (variables m) + 1)) = eval s m2 - eval s m1
     \<and> s v = \<bar>eval s m1 - eval s m2\<bar>
     \<and> \<bar>eval s m1 - eval s m2\<bar> \<le> int n"
  using assms unfolding calcAbsMinus_expand
  by (auto simp: satisfies_def)

lemma calcAbsMinus_abs:
  assumes "calcAbsMinus n m1 m2 m = (v, m')" and "satisfies m' s"
  shows "satisfies m s" and "s v = \<bar>eval s m1 - eval s m2\<bar>" and "\<bar>eval s m1 - eval s m2\<bar> \<le> int n"
  using assms satisfies_calcAbsMinus by blast+

subsection \<open>The notebook's own input and output\<close>

lemma init_constraints_apply:
  "init_constraints es ts (e, t) = (if e \<in> set es \<and> t \<in> set ts then Some None else None)"
proof -
  have inner: "\<And>d e'. fold (\<lambda>t d. d((e', t) \<mapsto> None)) ts d (e, t)
      = (if e = e' \<and> t \<in> set ts then Some None else d (e, t))"
    by (induction ts) auto
  have "\<And>d. fold (\<lambda>e. fold (\<lambda>t d. d((e, t) \<mapsto> None)) ts) es d (e, t)
      = (if e \<in> set es \<and> t \<in> set ts then Some None else d (e, t))"
    by (induction es) (auto simp: inner)
  from this [of Map.empty] show ?thesis by (simp add: init_constraints_def)
qed

lemma init_targets_apply: "init_targets es e = (if e \<in> set es then Some 0 else None)"
proof -
  have "\<And>d. fold (\<lambda>e d. d(e \<mapsto> 0)) es d e = (if e \<in> set es then Some 0 else d e)"
    by (induction es) auto
  from this [of Map.empty] show ?thesis by (simp add: init_targets_def)
qed

lemma all_less_list: "[0..<n] = xs \<Longrightarrow> (\<forall>t<n. P t) \<longleftrightarrow> (\<forall>t\<in>set xs. P t)"
  by (metis atLeastLessThan_upt atLeast0LessThan lessThan_iff)

lemma upt_15: "[0..<15] = [0, 1, 2, 3, 4, 5, 6, 7, 8, 9, 10, 11, 12, 13, 14]"
  by code_simp

lemma upt_16: "[0..<16] = [0, 1, 2, 3, 4, 5, 6, 7, 8, 9, 10, 11, 12, 13, 14, 15]"
  by code_simp

lemmas all_less_16 = all_less_list [OF upt_16]
lemmas all_less_15 = all_less_list [OF upt_15]

lemma nb_ok: "\<not> isl (hard_cells notebook)"
proof -
  have "\<exists>m. hard_cells notebook = Inr m"
    unfolding hard_cells_succeeds
    by (simp add: notebook_def init_constraints_apply)
  then show ?thesis by auto
qed

lemma nb_sat: "satisfies (projr (hard_cells notebook)) notebook_output"
proof -
  obtain m where m: "hard_cells notebook = Inr m"
    using nb_ok by (cases "hard_cells notebook") auto
  have "satisfies m notebook_output"
    unfolding satisfies_hard_cells [OF m]
    by (simp add: notebook_def notebook_output_def schedule_def init_constraints_apply all_less_16 all_less_15)
  then show ?thesis by (simp add: m)
qed

subsection \<open>Coverage\<close>

lemma sum_list_01_unique:
  fixes f :: "'a \<Rightarrow> int"
  assumes "\<forall>x\<in>set xs. 0 \<le> f x \<and> f x \<le> 1" and "sum_list (map f xs) = 1"
  shows "\<exists>!x. x \<in> set xs \<and> f x = 1"
  using assms
proof (induction xs)
  case Nil
  then show ?case by simp
next
  case (Cons x xs)
  have rest_nonneg: "\<And>y. y \<in> set (map f xs) \<Longrightarrow> 0 \<le> y"
    using Cons.prems(1) by auto
  show ?case
  proof (cases "f x = 1")
    case True
    then have "sum_list (map f xs) = 0" using Cons.prems(2) by simp
    then have "\<forall>y\<in>set xs. f y = 0"
      using sum_list_nonneg_eq_0_iff [of "map f xs"] rest_nonneg by auto
    with True show ?thesis by auto
  next
    case False
    then have fx: "f x = 0" using Cons.prems(1) by force
    then have "sum_list (map f xs) = 1" using Cons.prems(2) by simp
    then have "\<exists>!y. y \<in> set xs \<and> f y = 1" using Cons.IH Cons.prems(1) by simp
    with fx show ?thesis by auto
  qed
qed

lemma constraints_fold_mono:
  assumes "\<And>x m. set (constraints m) \<subseteq> set (constraints (f x m))"
  shows "set (constraints m) \<subseteq> set (constraints (fold f xs m))"
proof (induction xs arbitrary: m)
  case Nil
  then show ?case by simp
next
  case (Cons x xs)
  show ?case using assms [of m x] Cons.IH [of "f x m"] by auto
qed

lemma constraints_Add: "constraints (Add ct m) = constraints m @ [ct]"
  by (simp add: Add_def)

lemma constraints_cell4:
  "constraints (cell4 c m) =
     constraints m @ concat (map (\<lambda>t. [exactly_one NVar (normalEmployees c) t,
                                        exactly_one EVar (escalationEmployees c) t]) (timeSlots c))"
proof -
  have "\<And>ts m. constraints (fold (\<lambda>t m. Add (exactly_one EVar (escalationEmployees c) t)
                   (Add (exactly_one NVar (normalEmployees c) t) m)) ts m)
     = constraints m @ concat (map (\<lambda>t. [exactly_one NVar (normalEmployees c) t,
                                        exactly_one EVar (escalationEmployees c) t]) ts)"
  proof -
    fix ts m
    show "constraints (fold (\<lambda>t m. Add (exactly_one EVar (escalationEmployees c) t)
                   (Add (exactly_one NVar (normalEmployees c) t) m)) ts m)
     = constraints m @ concat (map (\<lambda>t. [exactly_one NVar (normalEmployees c) t,
                                        exactly_one EVar (escalationEmployees c) t]) ts)"
      by (induction ts arbitrary: m) (simp_all add: constraints_Add)
  qed
  then show ?thesis by (simp add: cell4_def)
qed

lemma constraints_cell5_mono: "set (constraints m) \<subseteq> set (constraints (cell5 c m))"
  unfolding cell5_def
  by (rule constraints_fold_mono, rule constraints_fold_mono) (auto simp: constraints_Add)

lemma constraints_cell6_mono: "set (constraints m) \<subseteq> set (constraints (cell6 c m))"
  unfolding cell6_def
  by (rule constraints_fold_mono, rule constraints_fold_mono) (auto simp: constraints_Add)

lemma hard_cells_coverage_emitted:
  assumes "hard_cells c = Inr m" and "t < amountTimeSlots c"
  shows "exactly_one NVar (normalEmployees c) t \<in> set (constraints m)"
    and "exactly_one EVar (escalationEmployees c) t \<in> set (constraints m)"
proof -
  from assms(1) obtain m3 where m: "m = cell6 c (cell5 c (cell4 c m3))"
    by (auto simp: hard_cells_def split: sum.splits)
  have t: "t \<in> set (timeSlots c)" using assms(2) by (simp add: timeSlots_def)
  have "exactly_one NVar (normalEmployees c) t \<in> set (constraints (cell4 c m3))"
    and "exactly_one EVar (escalationEmployees c) t \<in> set (constraints (cell4 c m3))"
    using t by (auto simp: constraints_cell4)
  then show "exactly_one NVar (normalEmployees c) t \<in> set (constraints m)"
    and "exactly_one EVar (escalationEmployees c) t \<in> set (constraints m)"
    using constraints_cell5_mono [of "cell4 c m3" c]
      constraints_cell6_mono [of "cell5 c (cell4 c m3)" c] unfolding m by blast+
qed

subsection \<open>Claims about the hard constraints\<close>

text \<open>
  C6. In every assignment satisfying the hard constraints, for every slot and each role the
  decision variables of the role's pool at that slot sum to 1, so exactly one pool member is
  assigned; the constraint is emitted as one linear equality per slot and role, and the
  coverage cell emits nothing else.
\<close>
theorem exactly_one_per_slot:
  assumes "hard_cells c = Inr m" and "satisfies m s" and "t < amountTimeSlots c"
  shows "(\<Sum>e\<leftarrow>normalEmployees c. s (NVar e t)) = 1
       \<and> (\<exists>!e. e \<in> set (normalEmployees c) \<and> s (NVar e t) = 1)
       \<and> (\<Sum>e\<leftarrow>escalationEmployees c. s (EVar e t)) = 1
       \<and> (\<exists>!e. e \<in> set (escalationEmployees c) \<and> s (EVar e t) = 1)
       \<and> LinEq (sum_py (map (\<lambda>e. VarE (NVar e t)) (normalEmployees c))) (Const 1) \<in> set (constraints m)
       \<and> LinEq (sum_py (map (\<lambda>e. VarE (EVar e t)) (escalationEmployees c))) (Const 1) \<in> set (constraints m)
       \<and> (\<forall>m0. constraints (cell4 c m0) =
            constraints m0 @ concat (map (\<lambda>t. [exactly_one NVar (normalEmployees c) t,
                                                exactly_one EVar (escalationEmployees c) t]) (timeSlots c)))"
proof -
  note h = satisfies_hard_cells [OF assms(1), of s, THEN iffD1, OF assms(2)]
  have sn: "(\<Sum>e\<leftarrow>normalEmployees c. s (NVar e t)) = 1"
    and se: "(\<Sum>e\<leftarrow>escalationEmployees c. s (EVar e t)) = 1"
    using h assms(3) by auto
  have dn: "\<forall>e\<in>set (normalEmployees c). 0 \<le> s (NVar e t) \<and> s (NVar e t) \<le> 1"
    and de: "\<forall>e\<in>set (escalationEmployees c). 0 \<le> s (EVar e t) \<and> s (EVar e t) \<le> 1"
    using h assms(3) by auto
  have un: "\<exists>!e. e \<in> set (normalEmployees c) \<and> s (NVar e t) = 1"
    using sum_list_01_unique [of "normalEmployees c" "\<lambda>e. s (NVar e t)"] dn sn by simp
  have ue: "\<exists>!e. e \<in> set (escalationEmployees c) \<and> s (EVar e t) = 1"
    using sum_list_01_unique [of "escalationEmployees c" "\<lambda>e. s (EVar e t)"] de se by simp
  show ?thesis
    using sn se un ue hard_cells_coverage_emitted [OF assms(1) assms(3)] constraints_cell4
    unfolding exactly_one_def by simp
qed

theorem exactly_one_per_slot_witness:
  "hard_cells notebook = Inr (projr (hard_cells notebook))
   \<and> satisfies (projr (hard_cells notebook)) notebook_output
   \<and> 15 < amountTimeSlots notebook
   \<and> (\<Sum>e\<leftarrow>normalEmployees notebook. notebook_output (NVar e 15)) = 1
   \<and> (\<Sum>e\<leftarrow>escalationEmployees notebook. notebook_output (EVar e 15)) = 1"
proof -
  have a: "hard_cells notebook = Inr (projr (hard_cells notebook))"
    using nb_ok by (cases "hard_cells notebook") auto
  have b: "15 < amountTimeSlots notebook" by (simp add: notebook_def)
  show ?thesis
    using a nb_sat b exactly_one_per_slot [OF a nb_sat b] by simp
qed

text \<open>
  C7. For every slot with a successor and every normal employee, an assignment satisfying the
  hard constraints that assigns the employee as normal at the slot does not assign them as
  normal at the next one. The escalation role has no such rule: some assignment satisfying
  all hard constraints gives two consecutive slots to the same escalation employee.
\<close>
theorem no_immediate_repeat_normal_only:
  "(hard_cells c = Inr m \<and> satisfies m s \<and> e \<in> set (normalEmployees c)
      \<and> t + 1 < amountTimeSlots c \<and> s (NVar e t) = 1 \<longrightarrow> s (NVar e (t + 1)) = 0)
   \<and> (\<exists>c' m' s' e' t'. hard_cells c' = Inr m' \<and> satisfies m' s' \<and> e' \<in> set (escalationEmployees c')
      \<and> t' + 1 < amountTimeSlots c' \<and> s' (EVar e' t') = 1 \<and> s' (EVar e' (t' + 1)) = 1)"
proof
  show "hard_cells c = Inr m \<and> satisfies m s \<and> e \<in> set (normalEmployees c)
      \<and> t + 1 < amountTimeSlots c \<and> s (NVar e t) = 1 \<longrightarrow> s (NVar e (t + 1)) = 0"
  proof
    assume a: "hard_cells c = Inr m \<and> satisfies m s \<and> e \<in> set (normalEmployees c)
      \<and> t + 1 < amountTimeSlots c \<and> s (NVar e t) = 1"
    then have "\<forall>t<amountTimeSlots c - 1. \<forall>e\<in>set (normalEmployees c).
         s (NVar e t) = 1 \<longrightarrow> s (NVar e (t + 1)) = 0"
      using satisfies_hard_cells [of c m s] by blast
    moreover have "t < amountTimeSlots c - 1" using a by linarith
    ultimately show "s (NVar e (t + 1)) = 0" using a by blast
  qed
next
  have a: "hard_cells notebook = Inr (projr (hard_cells notebook))"
    using nb_ok by (cases "hard_cells notebook") auto
  have "(2::nat) \<in> set (escalationEmployees notebook) \<and> (0::nat) + 1 < amountTimeSlots notebook
      \<and> notebook_output (EVar 2 0) = 1 \<and> notebook_output (EVar 2 (0 + 1)) = 1"
    by (simp add: notebook_def notebook_output_def schedule_def)
  with a nb_sat show "\<exists>c' m' s' e' t'. hard_cells c' = Inr m' \<and> satisfies m' s' \<and> e' \<in> set (escalationEmployees c')
      \<and> t' + 1 < amountTimeSlots c' \<and> s' (EVar e' t') = 1 \<and> s' (EVar e' (t' + 1)) = 1"
    by blast
qed

theorem no_immediate_repeat_normal_only_witness:
  "hard_cells notebook = Inr (projr (hard_cells notebook))
   \<and> satisfies (projr (hard_cells notebook)) notebook_output
   \<and> 3 \<in> set (normalEmployees notebook) \<and> 0 + 1 < amountTimeSlots notebook
   \<and> notebook_output (NVar 3 0) = 1 \<and> notebook_output (NVar 3 (0 + 1)) = 0"
proof -
  have a: "hard_cells notebook = Inr (projr (hard_cells notebook))"
    using nb_ok by (cases "hard_cells notebook") auto
  have b: "(3::nat) \<in> set (normalEmployees notebook) \<and> (0::nat) + 1 < amountTimeSlots notebook
      \<and> notebook_output (NVar 3 0) = 1"
    by (simp add: notebook_def notebook_output_def schedule_def)
  show ?thesis
    using a nb_sat b
      no_immediate_repeat_normal_only [of notebook "projr (hard_cells notebook)" notebook_output 3 0]
    by simp
qed

subsection \<open>Rotation costs: what a satisfying assignment gives\<close>

lemma rotation_step_sound:
  assumes "satisfies (rmodel (rotation_step n g r e st)) s"
  shows "satisfies (rmodel st) s"
    and "eval s (cost (rotation_step n g r e st)) = eval s (cost st) + \<bar>eval s (workload g r e) - 1\<bar>"
    and "\<bar>eval s (workload g r e) - 1\<bar> \<le> int n"
    and "\<exists>v. perEmployee (rotation_step n g r e st) = (perEmployee st)((e, r) \<mapsto> v)
           \<and> s v = \<bar>eval s (workload g r e) - 1\<bar>"
proof -
  obtain v m' where c: "calcAbsMinus n (workload g r e) (Const 1) (rmodel st) = (v, m')"
    by (cases "calcAbsMinus n (workload g r e) (Const 1) (rmodel st)") auto
  then have st: "rotation_step n g r e st =
      \<lparr>cost = AddE (cost st) (VarE v), perEmployee = (perEmployee st)((e, r) \<mapsto> v), rmodel = m'\<rparr>"
    by (simp add: rotation_step_def)
  from assms have sat: "satisfies m' s" by (simp add: st)
  note a = calcAbsMinus_abs [OF c sat]
  show "satisfies (rmodel st) s" using a(1) .
  show "eval s (cost (rotation_step n g r e st)) = eval s (cost st) + \<bar>eval s (workload g r e) - 1\<bar>"
    using a(2) by (simp add: st)
  show "\<bar>eval s (workload g r e) - 1\<bar> \<le> int n" using a(3) by simp
  show "\<exists>v. perEmployee (rotation_step n g r e st) = (perEmployee st)((e, r) \<mapsto> v)
           \<and> s v = \<bar>eval s (workload g r e) - 1\<bar>"
    using a(2) by (auto simp: st)
qed

lemma rotation_inner_sound:
  assumes "satisfies (rmodel (fold (rotation_step n g r) es st)) s"
  shows "satisfies (rmodel st) s
       \<and> eval s (cost (fold (rotation_step n g r) es st))
           = eval s (cost st) + (\<Sum>e\<leftarrow>es. \<bar>eval s (workload g r e) - 1\<bar>)
       \<and> (\<forall>e\<in>set es. \<bar>eval s (workload g r e) - 1\<bar> \<le> int n)
       \<and> (per_ok s g (perEmployee st) \<longrightarrow> per_ok s g (perEmployee (fold (rotation_step n g r) es st)))"
  using assms
proof (induction es arbitrary: st)
  case Nil
  then show ?case by simp
next
  case (Cons e es)
  let ?st1 = "rotation_step n g r e st"
  from Cons.prems have "satisfies (rmodel (fold (rotation_step n g r) es ?st1)) s" by simp
  note ih = Cons.IH [OF this]
  then have sat1: "satisfies (rmodel ?st1) s" by simp
  note a = rotation_step_sound [OF sat1]
  have per: "per_ok s g (perEmployee st) \<Longrightarrow> per_ok s g (perEmployee ?st1)"
    using a(4) by (auto simp: per_ok_def split: if_splits)
  show ?case using ih a(1,2,3) per by auto
qed

lemma rotation_loop_sound:
  assumes "satisfies (rmodel (rotation_loop n g es rs m)) s"
  shows "satisfies m s"
    and "eval s (cost (rotation_loop n g es rs m))
           = (\<Sum>r\<leftarrow>rs. \<Sum>e\<leftarrow>es. \<bar>eval s (workload g r e) - 1\<bar>)"
    and "per_ok s g (perEmployee (rotation_loop n g es rs m))"
proof -
  have gen: "\<And>st. satisfies (rmodel (fold (\<lambda>r. fold (rotation_step n g r) es) rs st)) s \<Longrightarrow>
      satisfies (rmodel st) s
      \<and> eval s (cost (fold (\<lambda>r. fold (rotation_step n g r) es) rs st))
           = eval s (cost st) + (\<Sum>r\<leftarrow>rs. \<Sum>e\<leftarrow>es. \<bar>eval s (workload g r e) - 1\<bar>)
      \<and> (per_ok s g (perEmployee st) \<longrightarrow>
           per_ok s g (perEmployee (fold (\<lambda>r. fold (rotation_step n g r) es) rs st)))"
  proof (induction rs)
    case Nil
    then show ?case by simp
  next
    case (Cons r rs)
    let ?st1 = "fold (rotation_step n g r) es st"
    from Cons.prems have "satisfies (rmodel (fold (\<lambda>r. fold (rotation_step n g r) es) rs ?st1)) s"
      by simp
    note ih = Cons.IH [OF this]
    then have "satisfies (rmodel ?st1) s" by simp
    note a = rotation_inner_sound [OF this]
    show ?case using ih a by auto
  qed
  have e: "per_ok s g Map.empty" by (simp add: per_ok_def)
  note g = gen [of "\<lparr>cost = Const 0, perEmployee = Map.empty, rmodel = m\<rparr>"]
  show "satisfies m s"
    and "eval s (cost (rotation_loop n g es rs m))
           = (\<Sum>r\<leftarrow>rs. \<Sum>e\<leftarrow>es. \<bar>eval s (workload g r e) - 1\<bar>)"
    and "per_ok s g (perEmployee (rotation_loop n g es rs m))"
    using g assms e unfolding rotation_loop_def by auto
qed

subsection \<open>Target-workload costs: what a satisfying assignment gives\<close>

lemma target_step_Inr:
  "target_step n g free twl e m = Inr r \<longleftrightarrow>
     (\<exists>tw. twl e = Some tw \<and> in_int64 tw
           \<and> r = calcAbsMinus n (workload g free e) (Const tw) m)"
  by (auto simp: target_step_def lookup_def split: option.splits)

lemma target_step_Inl:
  "target_step n g free twl e m = Inl err \<longleftrightarrow>
     (twl e = None \<and> err = KeyError)
   \<or> (\<exists>tw. twl e = Some tw \<and> \<not> in_int64 tw \<and> err = TypeError)"
  by (auto simp: target_step_def lookup_def split: option.splits)

lemma mapM_st_target_sound:
  assumes "mapM_st (target_step n g free twl) es m = Inr (vs, m')" and "satisfies m' s"
  shows "satisfies m s
       \<and> map s vs = map (\<lambda>e. \<bar>eval s (workload g free e) - the (twl e)\<bar>) es
       \<and> (\<forall>e\<in>set es. twl e \<noteq> None \<and> \<bar>eval s (workload g free e) - the (twl e)\<bar> \<le> int n)"
  using assms
proof (induction es arbitrary: m vs)
  case Nil
  then show ?case by simp
next
  case (Cons e es)
  from Cons.prems(1) obtain v m1 vs1 where
    step: "target_step n g free twl e m = Inr (v, m1)"
    and rest: "mapM_st (target_step n g free twl) es m1 = Inr (vs1, m')"
    and vs: "vs = v # vs1"
    by (auto split: sum.splits prod.splits)
  from step obtain tw where tw: "twl e = Some tw"
    and c: "calcAbsMinus n (workload g free e) (Const tw) m = (v, m1)"
    by (auto simp: target_step_Inr)
  note ih = Cons.IH [OF rest Cons.prems(2)]
  then have "satisfies m1 s" by simp
  note a = calcAbsMinus_abs [OF c this]
  show ?case using ih a tw by (simp add: vs)
qed

lemma target_cost_sound:
  assumes "target_cost n g free twl es m = Inr (cv, m')" and "satisfies m' s"
  shows "satisfies m s"
    and "0 \<le> s cv" and "s cv \<le> int (length free)"
    and "es \<noteq> []"
    and "s cv = Max ((\<lambda>e. \<bar>eval s (workload g free e) - the (twl e)\<bar>) ` set es)"
    and "\<forall>e\<in>set es. twl e \<noteq> None \<and> \<bar>eval s (workload g free e) - the (twl e)\<bar> \<le> int n"
proof -
  obtain m0 where n0: "NewIntVar 0 (int (length free)) m = (IVar (length (variables m)), m0)"
    by (simp add: NewIntVar_def)
  from assms(1) n0 obtain vs m1 where
    mp: "mapM_st (target_step n g free twl) es m0 = Inr (vs, m1)"
    and cv: "cv = IVar (length (variables m))"
    and m': "m' = Add (MaxEquality cv vs) m1"
    by (auto simp: target_cost_def split: sum.splits prod.splits)
  from assms(2) have sat1: "satisfies m1 s" and mx: "holds s (MaxEquality cv vs)"
    by (simp_all add: m' satisfies_Add)
  note a = mapM_st_target_sound [OF mp sat1]
  then have sat0: "satisfies m0 s" by simp
  with n0 have b: "satisfies m s \<and> 0 \<le> s cv \<and> s cv \<le> int (length free)"
    using satisfies_NewIntVar [OF n0, of s] cv by simp
  show "satisfies m s" and "0 \<le> s cv" and "s cv \<le> int (length free)" using b by auto
  from mx have "vs \<noteq> []" by simp
  moreover have "length vs = length es" using a by (metis length_map)
  ultimately show "es \<noteq> []" by auto
  have "set (map s vs) = (\<lambda>e. \<bar>eval s (workload g free e) - the (twl e)\<bar>) ` set es"
    using a by simp
  with mx show "s cv = Max ((\<lambda>e. \<bar>eval s (workload g free e) - the (twl e)\<bar>) ` set es)"
    by simp
  show "\<forall>e\<in>set es. twl e \<noteq> None \<and> \<bar>eval s (workload g free e) - the (twl e)\<bar> \<le> int n"
    using a by simp
qed

subsection \<open>The cost cells as a whole\<close>

lemma cost_cells_InrE:
  assumes "cost_cells c m = Inr b"
  obtains rs rsE cTE mTE cT mT where
    "rotations_of (timeSlots c) (normalEmployees c) = Inr rs"
    and "rotations_of (timeSlots c) (escalationEmployees c) = Inr rsE"
    and "target_cost (amountTimeSlots c) EVar (timeSlotsFree c) (targetWorkloadEscalation c)
           (escalationEmployees c)
           (rmodel (rotation_loop (amountTimeSlots c) EVar (escalationEmployees c) rsE
              (rmodel (rotation_loop (amountTimeSlots c) NVar (normalEmployees c) rs m))))
         = Inr (cTE, mTE)"
    and "target_cost (amountTimeSlots c) NVar (timeSlotsFree c) (targetWorkloadNormal c)
           (normalEmployees c) mTE = Inr (cT, mT)"
    and "model b = Minimize (costOverall b) mT"
    and "rotations b = rs" and "rotationsEscalation b = rsE"
    and "costRotations b = cost (rotation_loop (amountTimeSlots c) NVar (normalEmployees c) rs m)"
    and "costRotationPerEmployee b
           = perEmployee (rotation_loop (amountTimeSlots c) NVar (normalEmployees c) rs m)"
    and "costRotationsEscalation b
           = cost (rotation_loop (amountTimeSlots c) EVar (escalationEmployees c) rsE
              (rmodel (rotation_loop (amountTimeSlots c) NVar (normalEmployees c) rs m)))"
    and "costRotationEscalationPerEmployee b
           = perEmployee (rotation_loop (amountTimeSlots c) EVar (escalationEmployees c) rsE
              (rmodel (rotation_loop (amountTimeSlots c) NVar (normalEmployees c) rs m)))"
    and "costRotationsMax b = rotations_max rs (normalEmployees c)"
    and "costRotationsEscalationMax b = rotations_max rsE (escalationEmployees c)"
    and "costTargetWorkloadEscalationMax b = int (length (timeSlotsFree c))"
    and "costTargetWorkloadEscalation b = cTE" and "costTargetWorkload b = cT"
    and "costOverall b =
           overall (costRotationsEscalation b) (costRotationsEscalationMax b)
             (costRotations b) (costRotationsMax b)
             (costTargetWorkloadEscalation b) (costTargetWorkloadEscalationMax b)
             (costTargetWorkload b)"
  using assms unfolding cost_cells_def
  by (auto simp: Let_def split: sum.splits prod.splits)

lemma build_InrE:
  assumes "build c = Inr b"
  obtains m where "hard_cells c = Inr m" and "cost_cells c m = Inr b"
  using assms unfolding build_def by (auto split: sum.splits)

lemma eval_overall:
  "eval s (overall cRE maxRE cR maxR cTE maxTE cT) =
     eval s cRE + maxRE * eval s cR + maxRE * maxR * s cTE + maxRE * maxR * maxTE * s cT"
  by (simp add: overall_def)

text \<open>The value of each cost term under a satisfying assignment of the whole model.\<close>

lemma build_sound:
  assumes "build c = Inr b" and "satisfies (model b) s"
  shows "\<exists>m. hard_cells c = Inr m \<and> satisfies m s"
    and "rotations_of (timeSlots c) (normalEmployees c) = Inr (rotations b)"
    and "rotations_of (timeSlots c) (escalationEmployees c) = Inr (rotationsEscalation b)"
    and "eval s (costRotations b)
           = (\<Sum>r\<leftarrow>rotations b. \<Sum>e\<leftarrow>normalEmployees c. \<bar>eval s (workload NVar r e) - 1\<bar>)"
    and "eval s (costRotationsEscalation b)
           = (\<Sum>r\<leftarrow>rotationsEscalation b. \<Sum>e\<leftarrow>escalationEmployees c. \<bar>eval s (workload EVar r e) - 1\<bar>)"
    and "per_ok s NVar (costRotationPerEmployee b)"
    and "per_ok s EVar (costRotationEscalationPerEmployee b)"
    and "0 \<le> s (costTargetWorkload b) \<and> s (costTargetWorkload b) \<le> int (length (timeSlotsFree c))"
    and "0 \<le> s (costTargetWorkloadEscalation b)
           \<and> s (costTargetWorkloadEscalation b) \<le> int (length (timeSlotsFree c))"
    and "s (costTargetWorkload b) = Max ((\<lambda>e. \<bar>eval s (workload NVar (timeSlotsFree c) e)
             - the (targetWorkloadNormal c e)\<bar>) ` set (normalEmployees c))"
    and "s (costTargetWorkloadEscalation b) = Max ((\<lambda>e. \<bar>eval s (workload EVar (timeSlotsFree c) e)
             - the (targetWorkloadEscalation c e)\<bar>) ` set (escalationEmployees c))"
    and "\<forall>e\<in>set (normalEmployees c). \<bar>eval s (workload NVar (timeSlotsFree c) e)
             - the (targetWorkloadNormal c e)\<bar> \<le> int (amountTimeSlots c)"
    and "\<forall>e\<in>set (escalationEmployees c). \<bar>eval s (workload EVar (timeSlotsFree c) e)
             - the (targetWorkloadEscalation c e)\<bar> \<le> int (amountTimeSlots c)"
proof -
  from assms(1) obtain m where h: "hard_cells c = Inr m" and cc: "cost_cells c m = Inr b"
    by (rule build_InrE)
  from cc obtain rs rsE cTE mTE cT mT where
    f: "rotations_of (timeSlots c) (normalEmployees c) = Inr rs"
       "rotations_of (timeSlots c) (escalationEmployees c) = Inr rsE"
       "target_cost (amountTimeSlots c) EVar (timeSlotsFree c) (targetWorkloadEscalation c)
           (escalationEmployees c)
           (rmodel (rotation_loop (amountTimeSlots c) EVar (escalationEmployees c) rsE
              (rmodel (rotation_loop (amountTimeSlots c) NVar (normalEmployees c) rs m))))
         = Inr (cTE, mTE)"
       "target_cost (amountTimeSlots c) NVar (timeSlotsFree c) (targetWorkloadNormal c)
           (normalEmployees c) mTE = Inr (cT, mT)"
       "model b = Minimize (costOverall b) mT"
       "rotations b = rs" "rotationsEscalation b = rsE"
       "costRotations b = cost (rotation_loop (amountTimeSlots c) NVar (normalEmployees c) rs m)"
       "costRotationPerEmployee b
           = perEmployee (rotation_loop (amountTimeSlots c) NVar (normalEmployees c) rs m)"
       "costRotationsEscalation b
           = cost (rotation_loop (amountTimeSlots c) EVar (escalationEmployees c) rsE
              (rmodel (rotation_loop (amountTimeSlots c) NVar (normalEmployees c) rs m)))"
       "costRotationEscalationPerEmployee b
           = perEmployee (rotation_loop (amountTimeSlots c) EVar (escalationEmployees c) rsE
              (rmodel (rotation_loop (amountTimeSlots c) NVar (normalEmployees c) rs m)))"
       "costTargetWorkloadEscalation b = cTE" "costTargetWorkload b = cT"
    by (rule cost_cells_InrE) blast
  from assms(2) have satT: "satisfies mT s" by (simp add: f(5) satisfies_Minimize)
  note tn = target_cost_sound [OF f(4) satT]
  note te = target_cost_sound [OF f(3) tn(1)]
  note re = rotation_loop_sound [OF te(1)]
  note rn = rotation_loop_sound [OF re(1)]
  show "\<exists>m. hard_cells c = Inr m \<and> satisfies m s" using h rn(1) by blast
  show "rotations_of (timeSlots c) (normalEmployees c) = Inr (rotations b)" using f by simp
  show "rotations_of (timeSlots c) (escalationEmployees c) = Inr (rotationsEscalation b)"
    using f by simp
  show "eval s (costRotations b)
           = (\<Sum>r\<leftarrow>rotations b. \<Sum>e\<leftarrow>normalEmployees c. \<bar>eval s (workload NVar r e) - 1\<bar>)"
    using rn(2) f by simp
  show "eval s (costRotationsEscalation b)
           = (\<Sum>r\<leftarrow>rotationsEscalation b. \<Sum>e\<leftarrow>escalationEmployees c. \<bar>eval s (workload EVar r e) - 1\<bar>)"
    using re(2) f by simp
  show "per_ok s NVar (costRotationPerEmployee b)" using rn(3) f by simp
  show "per_ok s EVar (costRotationEscalationPerEmployee b)" using re(3) f by simp
  show "0 \<le> s (costTargetWorkload b) \<and> s (costTargetWorkload b) \<le> int (length (timeSlotsFree c))"
    using tn(2,3) f by simp
  show "0 \<le> s (costTargetWorkloadEscalation b)
           \<and> s (costTargetWorkloadEscalation b) \<le> int (length (timeSlotsFree c))"
    using te(2,3) f by simp
  show "s (costTargetWorkload b) = Max ((\<lambda>e. \<bar>eval s (workload NVar (timeSlotsFree c) e)
             - the (targetWorkloadNormal c e)\<bar>) ` set (normalEmployees c))"
    using tn(5) f by simp
  show "s (costTargetWorkloadEscalation b) = Max ((\<lambda>e. \<bar>eval s (workload EVar (timeSlotsFree c) e)
             - the (targetWorkloadEscalation c e)\<bar>) ` set (escalationEmployees c))"
    using te(5) f by simp
  show "\<forall>e\<in>set (normalEmployees c). \<bar>eval s (workload NVar (timeSlotsFree c) e)
             - the (targetWorkloadNormal c e)\<bar> \<le> int (amountTimeSlots c)"
    using tn(6) by simp
  show "\<forall>e\<in>set (escalationEmployees c). \<bar>eval s (workload EVar (timeSlotsFree c) e)
             - the (targetWorkloadEscalation c e)\<bar> \<le> int (amountTimeSlots c)"
    using te(6) by simp
qed

subsection \<open>Rotation groups\<close>

lemma rotations_of_Inr:
  assumes "rotations_of [0..<n] es = Inr rs"
  shows "es \<noteq> []"
    and "\<forall>r\<in>set rs. r \<noteq> [] \<and> length r \<le> length es \<and> length r \<le> n \<and> set r \<subseteq> {0..<n}"
proof -
  let ?p = "length es"
  from assms have p: "?p \<noteq> 0"
    and rs: "rs = map (\<lambda>i. slice [0..<n] i (i + ?p)) (map (\<lambda>k. k * ?p) [0..<(n + ?p - 1) div ?p])"
    by (auto simp: rotations_of_def range_step_def split: if_splits)
  show "es \<noteq> []" using p by auto
  show "\<forall>r\<in>set rs. r \<noteq> [] \<and> length r \<le> length es \<and> length r \<le> n \<and> set r \<subseteq> {0..<n}"
  proof
    fix r assume "r \<in> set rs"
    then obtain k where k: "k < (n + ?p - 1) div ?p" and r: "r = slice [0..<n] (k * ?p) (k * ?p + ?p)"
      unfolding rs by auto
    from k have "Suc k \<le> (n + ?p - 1) div ?p" by simp
    then have "Suc k * ?p \<le> n + ?p - 1"
      using p by (simp add: less_eq_div_iff_mult_less_eq)
    moreover have "0 < ?p" using p by simp
    ultimately have kn: "k * ?p < n" by (simp only: mult_Suc)
    have r': "r = take ?p (drop (k * ?p) [0..<n])" by (simp add: r slice_def)
    have lr: "length r = min ?p (n - k * ?p)" by (simp add: r')
    have "0 < ?p" using p by simp
    with lr kn have "0 < length r" "length r \<le> ?p" "length r \<le> n" by linarith+
    then have "r \<noteq> []" "length r \<le> ?p" "length r \<le> n" by auto
    moreover have "set r \<subseteq> {0..<n}"
      using set_take_subset [of ?p "drop (k * ?p) [0..<n]"] set_drop_subset [of "k * ?p" "[0..<n]"]
      unfolding r' by auto
    ultimately show "r \<noteq> [] \<and> length r \<le> length es \<and> length r \<le> n \<and> set r \<subseteq> {0..<n}"
      by simp
  qed
qed

lemma rotations_of_succeeds: "(\<exists>rs. rotations_of ts es = Inr rs) \<longleftrightarrow> es \<noteq> []"
  by (auto simp: rotations_of_def range_step_def)

subsection \<open>The bound on a rotation cost\<close>

lemma sum_list_swap_lists:
  fixes f :: "'a \<Rightarrow> 'b \<Rightarrow> int"
  shows "(\<Sum>x\<leftarrow>xs. \<Sum>y\<leftarrow>ys. f x y) = (\<Sum>y\<leftarrow>ys. \<Sum>x\<leftarrow>xs. f x y)"
  by (induction xs) (simp_all add: sum_list_addf)

lemma sum_list_01_bounds:
  fixes f :: "'a \<Rightarrow> int"
  assumes "\<forall>x\<in>set xs. 0 \<le> f x \<and> f x \<le> 1"
  shows "0 \<le> sum_list (map f xs) \<and> sum_list (map f xs) \<le> int (length xs)"
  using assms by (induction xs) auto

lemma sum_list_le_const:
  fixes f :: "'a \<Rightarrow> int"
  assumes "\<forall>x\<in>set xs. f x \<le> k"
  shows "sum_list (map f xs) \<le> int (length xs) * k"
  using assms by (induction xs) (auto simp: algebra_simps)

lemma sum_list_abs_minus_one:
  fixes w :: "'a \<Rightarrow> int"
  assumes nonneg: "\<forall>e\<in>set es. 0 \<le> w e"
    and total: "sum_list (map w es) = L" and L: "1 \<le> L"
  shows "(\<Sum>e\<leftarrow>es. \<bar>w e - 1\<bar>) \<le> L + int (length es) - 2"
proof -
  have "\<exists>e\<in>set es. 1 \<le> w e"
  proof (rule ccontr)
    assume "\<not> (\<exists>e\<in>set es. 1 \<le> w e)"
    then have "\<forall>e\<in>set es. w e \<le> 0" by auto
    then have "sum_list (map w es) \<le> int (length es) * 0" by (rule sum_list_le_const)
    with total L show False by simp
  qed
  then obtain e0 where e0: "e0 \<in> set es" and w0: "1 \<le> w e0" by blast
  from e0 obtain ys zs where es: "es = ys @ e0 # zs" by (meson split_list)
  have le: "\<And>xs. set xs \<subseteq> set es \<Longrightarrow> (\<Sum>e\<leftarrow>xs. \<bar>w e - 1\<bar>) \<le> (\<Sum>e\<leftarrow>xs. w e + 1)"
  proof -
    fix xs assume "set xs \<subseteq> set es"
    then have "\<And>e. e \<in> set xs \<Longrightarrow> \<bar>w e - 1\<bar> \<le> w e + 1" using nonneg by fastforce
    then show "(\<Sum>e\<leftarrow>xs. \<bar>w e - 1\<bar>) \<le> (\<Sum>e\<leftarrow>xs. w e + 1)" by (rule sum_list_mono)
  qed
  have "(\<Sum>e\<leftarrow>es. \<bar>w e - 1\<bar>) = (\<Sum>e\<leftarrow>ys. \<bar>w e - 1\<bar>) + (w e0 - 1) + (\<Sum>e\<leftarrow>zs. \<bar>w e - 1\<bar>)"
    using w0 by (simp add: es)
  also have "\<dots> \<le> (\<Sum>e\<leftarrow>ys. w e + 1) + (w e0 - 1) + (\<Sum>e\<leftarrow>zs. w e + 1)"
  proof -
    have "(\<Sum>e\<leftarrow>ys. \<bar>w e - 1\<bar>) \<le> (\<Sum>e\<leftarrow>ys. w e + 1)" by (rule le) (auto simp: es)
    moreover have "(\<Sum>e\<leftarrow>zs. \<bar>w e - 1\<bar>) \<le> (\<Sum>e\<leftarrow>zs. w e + 1)" by (rule le) (auto simp: es)
    ultimately show ?thesis by linarith
  qed
  also have "\<dots> = (\<Sum>e\<leftarrow>es. w e + 1) - 2" by (simp add: es)
  also have "\<dots> = L + int (length es) - 2"
    using total by (simp add: sum_list_addf sum_list_triv)
  finally show ?thesis .
qed

lemma rotation_group_bound:
  assumes dom: "\<forall>e\<in>set es. \<forall>t<n. 0 \<le> s (g e t) \<and> s (g e t) \<le> 1"
    and cover: "\<forall>t<n. (\<Sum>e\<leftarrow>es. s (g e t)) = 1"
    and r: "r \<noteq> []" "length r \<le> length es" "set r \<subseteq> {0..<n}"
  shows "(\<Sum>e\<leftarrow>es. \<bar>eval s (workload g r e) - 1\<bar>) \<le> 2 * (int (length es) - 1)"
proof -
  let ?w = "\<lambda>e. \<Sum>t\<leftarrow>r. s (g e t)"
  have nonneg: "\<forall>e\<in>set es. 0 \<le> ?w e"
  proof
    fix e assume "e \<in> set es"
    then have "\<forall>t\<in>set r. 0 \<le> s (g e t) \<and> s (g e t) \<le> 1" using dom r(3) by auto
    then show "0 \<le> ?w e" using sum_list_01_bounds [of r "\<lambda>t. s (g e t)"] by simp
  qed
  have "sum_list (map ?w es) = (\<Sum>t\<leftarrow>r. \<Sum>e\<leftarrow>es. s (g e t))"
    by (rule sum_list_swap_lists)
  also have "\<dots> = (\<Sum>t\<leftarrow>r. 1)"
    using cover r(3) by (intro arg_cong [where f = sum_list] map_cong) auto
  also have "\<dots> = int (length r)" by (simp add: sum_list_triv)
  finally have total: "sum_list (map ?w es) = int (length r)" .
  have "1 \<le> int (length r)" using r(1) by (cases r) auto
  from sum_list_abs_minus_one [OF nonneg total this]
  have "(\<Sum>e\<leftarrow>es. \<bar>?w e - 1\<bar>) \<le> int (length r) + int (length es) - 2" .
  then show ?thesis using r(2) by (simp add: eval_workload)
qed

lemma rotation_cost_bound:
  assumes dom: "\<forall>e\<in>set es. \<forall>t<n. 0 \<le> s (g e t) \<and> s (g e t) \<le> 1"
    and cover: "\<forall>t<n. (\<Sum>e\<leftarrow>es. s (g e t)) = 1"
    and rs: "rotations_of [0..<n] es = Inr rs"
  shows "(\<Sum>r\<leftarrow>rs. \<Sum>e\<leftarrow>es. \<bar>eval s (workload g r e) - 1\<bar>) \<le> rotations_max rs es"
    and "0 \<le> (\<Sum>r\<leftarrow>rs. \<Sum>e\<leftarrow>es. \<bar>eval s (workload g r e) - 1\<bar>)"
proof -
  have "\<forall>r\<in>set rs. (\<Sum>e\<leftarrow>es. \<bar>eval s (workload g r e) - 1\<bar>) \<le> 2 * (int (length es) - 1)"
    using rotations_of_Inr(2) [OF rs] rotation_group_bound [OF dom cover] by blast
  then have "(\<Sum>r\<leftarrow>rs. \<Sum>e\<leftarrow>es. \<bar>eval s (workload g r e) - 1\<bar>)
      \<le> int (length rs) * (2 * (int (length es) - 1))"
    by (rule sum_list_le_const)
  then show "(\<Sum>r\<leftarrow>rs. \<Sum>e\<leftarrow>es. \<bar>eval s (workload g r e) - 1\<bar>) \<le> rotations_max rs es"
    by (simp add: rotations_max_def mult.assoc)
  show "0 \<le> (\<Sum>r\<leftarrow>rs. \<Sum>e\<leftarrow>es. \<bar>eval s (workload g r e) - 1\<bar>)"
    by (intro sum_list_nonneg) (auto intro!: sum_list_nonneg)
qed

subsection \<open>Extending an assignment to the auxiliary variables\<close>

lemma var_below_mono: "var_below k v \<Longrightarrow> k \<le> k' \<Longrightarrow> var_below k' v"
  by (cases v) auto

lemma expr_below_mono: "expr_below k e \<Longrightarrow> k \<le> k' \<Longrightarrow> expr_below k' e"
  by (induction e) (auto intro: var_below_mono)

lemma constr_below_mono: "constr_below k ct \<Longrightarrow> k \<le> k' \<Longrightarrow> constr_below k' ct"
  by (cases ct) (auto simp: list_all_iff intro: var_below_mono expr_below_mono)

lemma agree_refl: "agree k s s"
  by (simp add: agree_def)

lemma agree_trans: "agree k s s1 \<Longrightarrow> agree k1 s1 s2 \<Longrightarrow> k \<le> k1 \<Longrightarrow> agree k s s2"
  unfolding agree_def by (metis var_below_mono)

lemma agree_grid:
  assumes "agree k s s'"
  shows "s' (NVar e t) = s (NVar e t)" and "s' (EVar e t) = s (EVar e t)"
  using assms by (simp_all add: agree_def)

lemma agree_eval: "agree k s s' \<Longrightarrow> expr_below k e \<Longrightarrow> eval s' e = eval s e"
  by (induction e) (auto simp: agree_def)

lemma agree_lit: "agree k s s' \<Longrightarrow> var_below k (lit_var l) \<Longrightarrow> lit_true s' l = lit_true s l"
  by (cases l) (auto simp: agree_def)

lemma agree_holds: "agree k s s' \<Longrightarrow> constr_below k ct \<Longrightarrow> holds s' ct = holds s ct"
proof (cases ct)
  case (LinEq a b)
  assume "agree k s s'" "constr_below k ct"
  then show ?thesis using LinEq by (simp add: agree_eval)
next
  case (Implication a b)
  assume "agree k s s'" "constr_below k ct"
  then show ?thesis using Implication by (simp add: agree_lit)
next
  case (MaxEquality t vs)
  assume a: "agree k s s'" "constr_below k ct"
  then have "map s' vs = map s vs" and "s' t = s t"
    using MaxEquality by (auto simp: agree_def list_all_iff)
  then show ?thesis using MaxEquality by (metis holds.simps(3))
qed

lemma agree_satisfies:
  assumes "model_below m" and "agree (length (variables m)) s s'" and "satisfies m s"
  shows "satisfies m s'"
proof -
  have "\<forall>d\<in>set (variables m). in_domain s' d"
  proof
    fix d assume d: "d \<in> set (variables m)"
    obtain v lb ub where dd: "d = (v, lb, ub)" by (cases d) auto
    from d assms(1) have "var_below (length (variables m)) v"
      by (auto simp: model_below_def list_all_iff dd)
    then have "s' v = s v" using assms(2) by (simp add: agree_def)
    moreover have "in_domain s d" using d assms(3) by (simp add: satisfies_def list_all_iff)
    ultimately show "in_domain s' d" by (simp add: dd)
  qed
  moreover have "\<forall>ct\<in>set (constraints m). holds s' ct"
  proof
    fix ct assume ct: "ct \<in> set (constraints m)"
    from ct assms(1) have "constr_below (length (variables m)) ct"
      by (auto simp: model_below_def list_all_iff)
    then have "holds s' ct = holds s ct" using assms(2) by (rule agree_holds [rotated])
    moreover have "holds s ct" using ct assms(3) by (simp add: satisfies_def list_all_iff)
    ultimately show "holds s' ct" by simp
  qed
  ultimately show ?thesis by (simp add: satisfies_def list_all_iff)
qed

lemma extends_to_refl: "model_below m \<Longrightarrow> satisfies m s \<Longrightarrow> extends_to m s m"
  unfolding extends_to_def using agree_refl by blast

lemma extends_to_trans:
  assumes "extends_to m s m1"
    and "\<And>s1. agree (length (variables m)) s s1 \<Longrightarrow> satisfies m1 s1 \<Longrightarrow> extends_to m1 s1 m2"
  shows "extends_to m s m2"
proof -
  from assms(1) obtain s1 where le1: "length (variables m) \<le> length (variables m1)"
    and a1: "agree (length (variables m)) s s1" and s1: "satisfies m1 s1"
    by (auto simp: extends_to_def)
  from assms(2) [OF a1 s1] obtain s2 where mb: "model_below m2"
    and le2: "length (variables m1) \<le> length (variables m2)"
    and a2: "agree (length (variables m1)) s1 s2" and s2: "satisfies m2 s2"
    by (auto simp: extends_to_def)
  have "agree (length (variables m)) s s2" using a1 a2 le1 by (rule agree_trans)
  with mb le1 le2 s2 show ?thesis unfolding extends_to_def by auto
qed

lemma model_below_CpModel: "model_below CpModel"
  by (simp add: model_below_def CpModel_def)

lemma model_below_NewBoolVar:
  assumes "model_below m" and "var_below 0 v"
  shows "model_below (NewBoolVar v m)"
  using assms unfolding model_below_def NewBoolVar_def
  by (auto simp: list_all_iff intro: var_below_mono constr_below_mono)

lemma model_below_Add:
  assumes "model_below m" and "constr_below (length (variables m)) ct"
  shows "model_below (Add ct m)"
  using assms unfolding model_below_def Add_def by (auto simp: list_all_iff)

lemma variables_Add: "variables (Add ct m) = variables m"
  by (simp add: Add_def)

lemma expr_below_sum_py: "list_all (expr_below k) xs \<Longrightarrow> expr_below k (sum_py xs)"
proof -
  have "\<And>a. expr_below k a \<Longrightarrow> list_all (expr_below k) xs \<Longrightarrow> expr_below k (foldl AddE a xs)"
    by (induction xs) auto
  then show "list_all (expr_below k) xs \<Longrightarrow> expr_below k (sum_py xs)"
    by (simp add: sum_py_def)
qed

lemma expr_below_workload:
  assumes "\<And>e t. var_below 0 (g e t)"
  shows "expr_below k (workload g ts e)"
  unfolding workload_def
  by (rule expr_below_sum_py) (auto simp: list_all_iff intro: var_below_mono [OF assms])

lemma fold_preserves:
  assumes "P m" and "\<And>x m. P m \<Longrightarrow> P (f x m)"
  shows "P (fold f xs m)"
  using assms by (induction xs arbitrary: m) auto

lemma foldM_preserves:
  assumes "foldM f xs m = Inr m'" and "P m" and "\<And>x m m'. f x m = Inr m' \<Longrightarrow> P m \<Longrightarrow> P m'"
  shows "P m'"
  using assms
proof (induction xs arbitrary: m)
  case Nil
  then show ?case by simp
next
  case (Cons x xs)
  from Cons.prems(1) obtain m1 where fx: "f x m = Inr m1" and rest: "foldM f xs m1 = Inr m'"
    by (auto split: sum.splits)
  have "P m1" using Cons.prems(3) [OF fx Cons.prems(2)] .
  then show ?case using Cons.IH [OF rest] Cons.prems(3) by blast
qed

lemma model_below_new_grid:
  assumes "model_below m" and "\<And>e t. var_below 0 (g e t)"
  shows "model_below (new_grid g es ts m)"
  unfolding new_grid_def
  by (rule fold_preserves, rule assms(1), rule fold_preserves, assumption,
      rule model_below_NewBoolVar, assumption, rule assms(2))

lemma model_below_respect:
  assumes "respect g ec es ts m = Inr m'" and "model_below m" and "\<And>e t. var_below 0 (g e t)"
  shows "model_below m'"
proof -
  have step: "\<And>e t m m'. respect_step g ec e t m = Inr m' \<Longrightarrow> model_below m \<Longrightarrow> model_below m'"
    by (auto simp: respect_step_def lookup_def split: option.splits
             intro!: model_below_Add var_below_mono [OF assms(3)])
  have inner: "\<And>e m m'. foldM (\<lambda>t. respect_step g ec e t) ts m = Inr m' \<Longrightarrow> model_below m \<Longrightarrow> model_below m'"
  proof -
    fix e m m'
    assume a: "foldM (\<lambda>t. respect_step g ec e t) ts m = Inr m'" and b: "model_below m"
    show "model_below m'"
      by (rule foldM_preserves [where P = model_below, OF a b]) (rule step)
  qed
  have "foldM (\<lambda>e. foldM (\<lambda>t. respect_step g ec e t) ts) es m = Inr m'"
    using assms(1) by (simp add: respect_def)
  then show ?thesis
    by (rule foldM_preserves [where P = model_below, OF _ assms(2)]) (rule inner)
qed

lemma constr_below_exactly_one:
  assumes "\<And>e t. var_below 0 (g e t)"
  shows "constr_below k (exactly_one g es t)"
  unfolding exactly_one_def
  by (auto simp: list_all_iff intro!: expr_below_sum_py var_below_mono [OF assms])

lemma model_below_cell4: "model_below m \<Longrightarrow> model_below (cell4 c m)"
  unfolding cell4_def
  by (rule fold_preserves, assumption)
     (auto intro!: model_below_Add constr_below_exactly_one simp: variables_Add)

lemma model_below_cell5: "model_below m \<Longrightarrow> model_below (cell5 c m)"
  unfolding cell5_def
  by (rule fold_preserves, assumption, rule fold_preserves, assumption)
     (auto intro!: model_below_Add)

lemma model_below_cell6: "model_below m \<Longrightarrow> model_below (cell6 c m)"
  unfolding cell6_def
  by (rule fold_preserves, assumption, rule fold_preserves, assumption)
     (auto intro!: model_below_Add)

lemma model_below_hard_cells:
  assumes "hard_cells c = Inr m"
  shows "model_below m"
proof -
  from assms obtain m3 where m3: "cell3 c (cell2 c CpModel) = Inr m3"
    and m: "m = cell6 c (cell5 c (cell4 c m3))"
    by (auto simp: hard_cells_def split: sum.splits)
  from m3 obtain mn where
    mn: "respect NVar (normalEmployeeConstraints c) (normalEmployees c) (timeSlots c) (cell2 c CpModel) = Inr mn"
    and me: "respect EVar (escalationEmployeeConstraints c) (escalationEmployees c) (timeSlots c) mn = Inr m3"
    by (auto simp: cell3_def split: sum.splits)
  have "model_below (cell2 c CpModel)"
    unfolding cell2_def by (intro model_below_new_grid model_below_CpModel) simp_all
  then have "model_below mn" by (rule model_below_respect [OF mn]) simp
  then have "model_below m3" by (rule model_below_respect [OF me]) simp
  then show ?thesis unfolding m by (intro model_below_cell6 model_below_cell5 model_below_cell4)
qed

lemma calcAbsMinus_extend:
  assumes c: "calcAbsMinus n m1 m2 m = (v, m')"
    and mb: "model_below m"
    and e1: "expr_below (length (variables m)) m1" and e2: "expr_below (length (variables m)) m2"
    and sat: "satisfies m s"
    and bound: "\<bar>eval s m1 - eval s m2\<bar> \<le> int n"
  shows "extends_to m s m'" and "var_below (length (variables m')) v"
proof -
  let ?k = "length (variables m)"
  let ?d = "eval s m1 - eval s m2"
  define s' where "s' = s(IVar ?k := ?d, IVar (?k + 1) := - ?d, IVar (?k + 2) := \<bar>?d\<bar>)"
  have v: "v = IVar (?k + 2)" and len: "length (variables m') = ?k + 3"
    and vars: "variables m' = variables m @
           [(IVar ?k, - int n, int n), (IVar (?k + 1), - int n, int n), (IVar (?k + 2), - int n, int n)]"
    and cons: "constraints m' = constraints m @
           [LinEq (VarE (IVar ?k)) (SubE m1 m2), LinEq (VarE (IVar (?k + 1))) (SubE m2 m1),
            MaxEquality (IVar (?k + 2)) [IVar ?k, IVar (?k + 1)]]"
    using c unfolding calcAbsMinus_expand by auto
  have ag: "agree ?k s s'"
    unfolding agree_def s'_def
  proof (intro allI impI)
    fix u assume "var_below ?k u"
    then show "(s(IVar ?k := ?d, IVar (?k + 1) := - ?d, IVar (?k + 2) := \<bar>?d\<bar>)) u = s u"
      by (cases u) auto
  qed
  have sat': "satisfies m s'" using mb ag sat by (rule agree_satisfies)
  have ev: "eval s' m1 = eval s m1" "eval s' m2 = eval s m2"
    using ag e1 e2 by (simp_all add: agree_eval)
  have "satisfies m' s'"
    unfolding satisfies_calcAbsMinus [OF c] ev
    using sat' bound by (simp add: v s'_def)
  moreover have "model_below m'"
    using mb e1 e2 unfolding model_below_def vars cons
    by (auto simp: list_all_iff intro: var_below_mono constr_below_mono expr_below_mono)
  ultimately show "extends_to m s m'"
    unfolding extends_to_def using ag len by auto
  show "var_below (length (variables m')) v" by (simp add: v len)
qed

lemma extends_toD:
  assumes "extends_to m s m'"
  shows "model_below m'" and "length (variables m) \<le> length (variables m')"
  using assms by (simp_all add: extends_to_def)

lemma rotation_step_extend:
  assumes mb: "model_below (rmodel st)" and sat: "satisfies (rmodel st) s"
    and grid: "\<And>e t. var_below 0 (g e t)"
    and bound: "\<bar>eval s (workload g r e) - 1\<bar> \<le> int n"
  shows "extends_to (rmodel st) s (rmodel (rotation_step n g r e st))"
proof -
  obtain v m' where c: "calcAbsMinus n (workload g r e) (Const 1) (rmodel st) = (v, m')"
    by (cases "calcAbsMinus n (workload g r e) (Const 1) (rmodel st)") auto
  then have st: "rmodel (rotation_step n g r e st) = m'"
    by (simp add: rotation_step_def)
  show ?thesis
    unfolding st
    by (rule calcAbsMinus_extend(1) [OF c mb _ _ sat]) (use bound in \<open>simp_all add: expr_below_workload [OF grid]\<close>)
qed

lemma rotation_inner_extend:
  assumes "model_below (rmodel st)" and "satisfies (rmodel st) s"
    and grid: "\<And>e t. var_below 0 (g e t)"
    and "\<forall>e\<in>set es. \<bar>eval s (workload g r e) - 1\<bar> \<le> int n"
  shows "extends_to (rmodel st) s (rmodel (fold (rotation_step n g r) es st))"
  using assms(1,2,4)
proof (induction es arbitrary: st s)
  case Nil
  then show ?case by (simp add: extends_to_refl)
next
  case (Cons e es)
  let ?st1 = "rotation_step n g r e st"
  have first: "extends_to (rmodel st) s (rmodel ?st1)"
    using Cons.prems by (intro rotation_step_extend grid) auto
  have "extends_to (rmodel st) s (rmodel (fold (rotation_step n g r) es ?st1))"
  proof (rule extends_to_trans [OF first])
    fix s1 assume ag: "agree (length (variables (rmodel st))) s s1" and s1: "satisfies (rmodel ?st1) s1"
    have "\<And>e. eval s1 (workload g r e) = eval s (workload g r e)"
      using ag by (rule agree_eval) (rule expr_below_workload [OF grid])
    then have "\<forall>e\<in>set es. \<bar>eval s1 (workload g r e) - 1\<bar> \<le> int n"
      using Cons.prems(3) by simp
    then show "extends_to (rmodel ?st1) s1 (rmodel (fold (rotation_step n g r) es ?st1))"
      using Cons.IH [OF extends_toD(1) [OF first] s1] by simp
  qed
  then show ?case by simp
qed

lemma rotation_loop_extend:
  assumes "model_below m" and "satisfies m s"
    and grid: "\<And>e t. var_below 0 (g e t)"
    and "\<forall>r\<in>set rs. \<forall>e\<in>set es. \<bar>eval s (workload g r e) - 1\<bar> \<le> int n"
  shows "extends_to m s (rmodel (rotation_loop n g es rs m))"
proof -
  have gen: "\<And>st s. model_below (rmodel st) \<Longrightarrow> satisfies (rmodel st) s \<Longrightarrow>
      \<forall>r\<in>set rs. \<forall>e\<in>set es. \<bar>eval s (workload g r e) - 1\<bar> \<le> int n \<Longrightarrow>
      extends_to (rmodel st) s (rmodel (fold (\<lambda>r. fold (rotation_step n g r) es) rs st))"
  proof (induction rs)
    case Nil
    then show ?case by (simp add: extends_to_refl)
  next
    case (Cons r rs)
    let ?st1 = "fold (rotation_step n g r) es st"
    have first: "extends_to (rmodel st) s (rmodel ?st1)"
      using Cons.prems by (intro rotation_inner_extend grid) auto
    have "extends_to (rmodel st) s (rmodel (fold (\<lambda>r. fold (rotation_step n g r) es) rs ?st1))"
    proof (rule extends_to_trans [OF first])
      fix s1 assume ag: "agree (length (variables (rmodel st))) s s1" and s1: "satisfies (rmodel ?st1) s1"
      have "\<And>r e. eval s1 (workload g r e) = eval s (workload g r e)"
        using ag by (rule agree_eval) (rule expr_below_workload [OF grid])
      then have "\<forall>r\<in>set rs. \<forall>e\<in>set es. \<bar>eval s1 (workload g r e) - 1\<bar> \<le> int n"
        using Cons.prems(3) by simp
      then show "extends_to (rmodel ?st1) s1 (rmodel (fold (\<lambda>r. fold (rotation_step n g r) es) rs ?st1))"
        using Cons.IH [OF extends_toD(1) [OF first] s1] by simp
    qed
    then show ?case by simp
  qed
  show ?thesis
    unfolding rotation_loop_def
    using gen [of "\<lparr>cost = Const 0, perEmployee = Map.empty, rmodel = m\<rparr>" s] assms(1,2,4) by simp
qed

lemma mapM_st_target_extend:
  assumes "model_below m" and "satisfies m s"
    and grid: "\<And>e t. var_below 0 (g e t)"
    and "\<forall>e\<in>set es. \<exists>tw. twl e = Some tw \<and> in_int64 tw \<and> \<bar>eval s (workload g free e) - tw\<bar> \<le> int n"
  shows "\<exists>vs m'. mapM_st (target_step n g free twl) es m = Inr (vs, m')
           \<and> extends_to m s m' \<and> list_all (var_below (length (variables m'))) vs"
  using assms(1,2,4)
proof (induction es arbitrary: m s)
  case Nil
  then show ?case by (simp add: extends_to_refl)
next
  case (Cons e es)
  from Cons.prems(3) obtain tw where tw: "twl e = Some tw" and fits: "in_int64 tw"
    and b: "\<bar>eval s (workload g free e) - tw\<bar> \<le> int n" by auto
  obtain v m1 where c: "calcAbsMinus n (workload g free e) (Const tw) m = (v, m1)"
    by (cases "calcAbsMinus n (workload g free e) (Const tw) m") auto
  have step: "target_step n g free twl e m = Inr (v, m1)"
    using tw fits c by (simp add: target_step_Inr)
  have first: "extends_to m s m1" and v: "var_below (length (variables m1)) v"
    using calcAbsMinus_extend [OF c Cons.prems(1) _ _ Cons.prems(2)] b
    by (simp_all add: expr_below_workload [OF grid])
  from first obtain s1 where ag: "agree (length (variables m)) s s1" and s1: "satisfies m1 s1"
    by (auto simp: extends_to_def)
  have ev: "\<And>e. eval s1 (workload g free e) = eval s (workload g free e)"
    using ag by (rule agree_eval) (rule expr_below_workload [OF grid])
  have "\<forall>e\<in>set es. \<exists>tw. twl e = Some tw \<and> in_int64 tw \<and> \<bar>eval s1 (workload g free e) - tw\<bar> \<le> int n"
    using Cons.prems(3) by (simp add: ev)
  from Cons.IH [OF extends_toD(1) [OF first] s1 this]
  obtain vs m' where rest: "mapM_st (target_step n g free twl) es m1 = Inr (vs, m')"
    and ext: "extends_to m1 s1 m'" and vs: "list_all (var_below (length (variables m'))) vs"
    by blast
  have "mapM_st (target_step n g free twl) (e # es) m = Inr (v # vs, m')"
    using step rest by simp
  moreover have "extends_to m s m'"
  proof (rule extends_to_trans [OF first])
    fix s2 assume ag2: "agree (length (variables m)) s s2" and s2: "satisfies m1 s2"
    have ev2: "\<And>e. eval s2 (workload g free e) = eval s (workload g free e)"
      using ag2 by (rule agree_eval) (rule expr_below_workload [OF grid])
    have "\<forall>e\<in>set es. \<exists>tw. twl e = Some tw \<and> in_int64 tw \<and> \<bar>eval s2 (workload g free e) - tw\<bar> \<le> int n"
      using Cons.prems(3) by (simp add: ev2)
    from Cons.IH [OF extends_toD(1) [OF first] s2 this] rest
    show "extends_to m1 s2 m'" by auto
  qed
  moreover have "list_all (var_below (length (variables m'))) (v # vs)"
    using vs v extends_toD(2) [OF ext] by (auto intro: var_below_mono)
  ultimately show ?case by blast
qed

lemma target_cost_extend:
  assumes mb: "model_below m" and sat: "satisfies m s"
    and grid: "\<And>e t. var_below 0 (g e t)"
    and es: "es \<noteq> []" and lf: "length free \<le> n"
    and tw: "\<forall>e\<in>set es. \<exists>tw. twl e = Some tw \<and> in_int64 tw \<and> \<bar>eval s (workload g free e) - tw\<bar> \<le> int (length free)"
  shows "\<exists>cv m'. target_cost n g free twl es m = Inr (cv, m') \<and> extends_to m s m'"
proof -
  let ?k = "length (variables m)"
  let ?F = "\<lambda>s e. \<bar>eval s (workload g free e) - the (twl e)\<bar>"
  let ?M = "Max (?F s ` set es)"
  obtain m0 where n0: "NewIntVar 0 (int (length free)) m = (IVar ?k, m0)"
    by (simp add: NewIntVar_def)
  then have m0: "m0 = m\<lparr>variables := variables m @ [(IVar ?k, 0, int (length free))]\<rparr>"
    by (simp add: NewIntVar_def)
  have ne: "?F s ` set es \<noteq> {}" and fin: "finite (?F s ` set es)" using es by auto
  have Mle: "?M \<le> int (length free)"
    using tw by (subst Max_le_iff [OF fin ne]) auto
  have Mge: "0 \<le> ?M"
  proof -
    have "?M \<in> ?F s ` set es" using fin ne by (rule Max_in)
    then show ?thesis by auto
  qed
  define s0 where "s0 = s(IVar ?k := ?M)"
  have ag0: "agree ?k s s0"
    unfolding agree_def s0_def
  proof (intro allI impI)
    fix u assume "var_below ?k u"
    then show "(s(IVar ?k := ?M)) u = s u" by (cases u) auto
  qed
  have mb0: "model_below m0"
    using mb unfolding model_below_def m0
    by (auto simp: list_all_iff intro: var_below_mono constr_below_mono)
  have sat0: "satisfies m0 s0"
    unfolding satisfies_NewIntVar [OF n0]
    using agree_satisfies [OF mb ag0 sat] Mle Mge by (simp add: s0_def)
  have len0: "length (variables m0) = ?k + 1" by (simp add: m0)
  have ev0: "\<And>e. eval s0 (workload g free e) = eval s (workload g free e)"
    using ag0 by (rule agree_eval) (rule expr_below_workload [OF grid])
  have "\<forall>e\<in>set es. \<exists>tw. twl e = Some tw \<and> in_int64 tw \<and> \<bar>eval s0 (workload g free e) - tw\<bar> \<le> int n"
    using tw lf by (fastforce simp: ev0)
  from mapM_st_target_extend [OF mb0 sat0 grid this]
  obtain vs m1 where mp: "mapM_st (target_step n g free twl) es m0 = Inr (vs, m1)"
    and ext: "extends_to m0 s0 m1" and vs: "list_all (var_below (length (variables m1))) vs"
    by blast
  from ext obtain s1 where ag1: "agree (length (variables m0)) s0 s1" and sat1: "satisfies m1 s1"
    by (auto simp: extends_to_def)
  note le1 = extends_toD(2) [OF ext]
  have tc: "target_cost n g free twl es m = Inr (IVar ?k, Add (MaxEquality (IVar ?k) vs) m1)"
    using n0 mp by (simp add: target_cost_def)
  have ag: "agree ?k s s1"
    using ag0 ag1 by (rule agree_trans) (simp add: len0)
  have cv1: "s1 (IVar ?k) = ?M"
    using ag1 by (simp add: agree_def len0 s0_def)
  have ev1: "\<And>e. eval s1 (workload g free e) = eval s (workload g free e)"
    using ag by (rule agree_eval) (rule expr_below_workload [OF grid])
  have "map s1 vs = map (?F s1) es"
    using mapM_st_target_sound [OF mp sat1] by simp
  then have "set (map s1 vs) = ?F s ` set es" and "length vs = length es"
    by (simp_all add: ev1) (metis length_map)
  then have hold: "holds s1 (MaxEquality (IVar ?k) vs)"
    using cv1 es by auto
  have sat': "satisfies (Add (MaxEquality (IVar ?k) vs) m1) s1"
    using sat1 hold by (simp add: satisfies_Add)
  have mb': "model_below (Add (MaxEquality (IVar ?k) vs) m1)"
    using extends_toD(1) [OF ext] vs le1 by (intro model_below_Add) (auto simp: len0)
  have "extends_to m s (Add (MaxEquality (IVar ?k) vs) m1)"
    unfolding extends_to_def using mb' sat' ag le1 by (auto simp: variables_Add len0)
  with tc show ?thesis by blast
qed

subsection \<open>When the cost cells succeed, and the whole extension\<close>

lemma agree_workload:
  assumes "agree k s s'" and "\<And>e t. var_below 0 (g e t)"
  shows "eval s' (workload g ts e) = eval s (workload g ts e)"
  using assms(1) by (rule agree_eval) (rule expr_below_workload [OF assms(2)])

lemma agree_weaken: "agree k s s' \<Longrightarrow> agree 0 s s'"
  unfolding agree_def by (metis var_below_mono le0)

lemma mapM_st_target_succeeds:
  "(\<exists>r. mapM_st (target_step n g free twl) es m = Inr r) \<longleftrightarrow> (\<forall>e\<in>set es. target_ok twl e)"
proof (induction es arbitrary: m)
  case Nil
  then show ?case by simp
next
  case (Cons e es)
  show ?case
  proof (cases "target_step n g free twl e m")
    case (Inl err)
    then have "\<not> target_ok twl e" by (auto simp: target_step_Inl target_ok_def)
    with Inl show ?thesis by simp
  next
    case (Inr r)
    obtain v m1 where r: "r = (v, m1)" by (cases r) auto
    have "target_ok twl e" using Inr by (auto simp: target_step_Inr target_ok_def)
    then show ?thesis
      using Cons.IH [of m1] Inr r by (auto split: sum.splits)
  qed
qed

lemma target_cost_succeeds:
  "(\<exists>r. target_cost n g free twl es m = Inr r) \<longleftrightarrow> (\<forall>e\<in>set es. target_ok twl e)"
proof -
  obtain cv m0 where n0: "NewIntVar 0 (int (length free)) m = (cv, m0)"
    by (cases "NewIntVar 0 (int (length free)) m") auto
  have "(\<exists>r. target_cost n g free twl es m = Inr r)
      \<longleftrightarrow> (\<exists>r. mapM_st (target_step n g free twl) es m0 = Inr r)"
    using n0 by (auto simp: target_cost_def split: sum.splits)
  then show ?thesis by (simp only: mapM_st_target_succeeds)
qed

lemma cost_cells_succeeds:
  "(\<exists>b. cost_cells c m = Inr b) \<longleftrightarrow>
     normalEmployees c \<noteq> [] \<and> escalationEmployees c \<noteq> []
     \<and> (\<forall>e\<in>set (escalationEmployees c). target_ok (targetWorkloadEscalation c) e)
     \<and> (\<forall>e\<in>set (normalEmployees c). target_ok (targetWorkloadNormal c) e)"
proof (cases "rotations_of (timeSlots c) (normalEmployees c)")
  case (Inl err)
  then have "normalEmployees c = []" using rotations_of_succeeds [of "timeSlots c" "normalEmployees c"] by auto
  with Inl show ?thesis by (simp add: cost_cells_def)
next
  case rn: (Inr rs)
  then have nn: "normalEmployees c \<noteq> []"
    using rotations_of_succeeds [of "timeSlots c" "normalEmployees c"] by auto
  show ?thesis
  proof (cases "rotations_of (timeSlots c) (escalationEmployees c)")
    case (Inl err)
    then have "escalationEmployees c = []"
      using rotations_of_succeeds [of "timeSlots c" "escalationEmployees c"] by auto
    with Inl rn show ?thesis by (simp add: cost_cells_def Let_def)
  next
    case re: (Inr rsE)
    then have ne: "escalationEmployees c \<noteq> []"
      using rotations_of_succeeds [of "timeSlots c" "escalationEmployees c"] by auto
    let ?mRE = "rmodel (rotation_loop (amountTimeSlots c) EVar (escalationEmployees c) rsE
              (rmodel (rotation_loop (amountTimeSlots c) NVar (normalEmployees c) rs m)))"
    show ?thesis
    proof (cases "target_cost (amountTimeSlots c) EVar (timeSlotsFree c)
                (targetWorkloadEscalation c) (escalationEmployees c) ?mRE")
      case (Inl err)
      then have "\<not> (\<forall>e\<in>set (escalationEmployees c). target_ok (targetWorkloadEscalation c) e)"
        using target_cost_succeeds [of "amountTimeSlots c" EVar "timeSlotsFree c"
            "targetWorkloadEscalation c" "escalationEmployees c" ?mRE] by auto
      with Inl rn re show ?thesis by (simp add: cost_cells_def Let_def)
    next
      case te: (Inr r1)
      obtain cTE mTE where r1: "r1 = (cTE, mTE)" by (cases r1) auto
      have okE: "\<forall>e\<in>set (escalationEmployees c). target_ok (targetWorkloadEscalation c) e"
        using te target_cost_succeeds [of "amountTimeSlots c" EVar "timeSlotsFree c"
            "targetWorkloadEscalation c" "escalationEmployees c" ?mRE] by auto
      show ?thesis
      proof (cases "target_cost (amountTimeSlots c) NVar (timeSlotsFree c)
                (targetWorkloadNormal c) (normalEmployees c) mTE")
        case (Inl err)
        then have "\<not> (\<forall>e\<in>set (normalEmployees c). target_ok (targetWorkloadNormal c) e)"
          using target_cost_succeeds [of "amountTimeSlots c" NVar "timeSlotsFree c"
              "targetWorkloadNormal c" "normalEmployees c" mTE] by auto
        with Inl rn re te r1 show ?thesis by (simp add: cost_cells_def Let_def)
      next
        case tn: (Inr r2)
        have okN: "\<forall>e\<in>set (normalEmployees c). target_ok (targetWorkloadNormal c) e"
          using tn target_cost_succeeds [of "amountTimeSlots c" NVar "timeSlotsFree c"
              "targetWorkloadNormal c" "normalEmployees c" mTE] by auto
        have "\<exists>b. cost_cells c m = Inr b"
          using rn re te r1 tn by (cases r2) (simp add: cost_cells_def Let_def)
        with nn ne okE okN show ?thesis by simp
      qed
    qed
  qed
qed

lemma build_succeeds:
  "(\<exists>b. build c = Inr b) \<longleftrightarrow>
     (\<forall>e\<in>set (normalEmployees c). \<forall>t<amountTimeSlots c. normalEmployeeConstraints c (e, t) \<noteq> None)
   \<and> (\<forall>e\<in>set (escalationEmployees c). \<forall>t<amountTimeSlots c. escalationEmployeeConstraints c (e, t) \<noteq> None)
   \<and> normalEmployees c \<noteq> [] \<and> escalationEmployees c \<noteq> []
   \<and> (\<forall>e\<in>set (escalationEmployees c). target_ok (targetWorkloadEscalation c) e)
   \<and> (\<forall>e\<in>set (normalEmployees c). target_ok (targetWorkloadNormal c) e)"
proof -
  have "(\<exists>b. build c = Inr b) \<longleftrightarrow> (\<exists>m. hard_cells c = Inr m \<and> (\<exists>b. cost_cells c m = Inr b))"
    by (auto simp: build_def split: sum.splits)
  also have "\<dots> \<longleftrightarrow> (\<exists>m. hard_cells c = Inr m) \<and>
     normalEmployees c \<noteq> [] \<and> escalationEmployees c \<noteq> []
     \<and> (\<forall>e\<in>set (escalationEmployees c). target_ok (targetWorkloadEscalation c) e)
     \<and> (\<forall>e\<in>set (normalEmployees c). target_ok (targetWorkloadNormal c) e)"
    by (simp only: cost_cells_succeeds) blast
  finally show ?thesis by (simp only: hard_cells_succeeds conj_assoc)
qed

lemma cost_cells_extend:
  assumes mb: "model_below m" and sat: "satisfies m s"
    and rn: "rotations_of (timeSlots c) (normalEmployees c) = Inr rs"
    and re: "rotations_of (timeSlots c) (escalationEmployees c) = Inr rsE"
    and bn: "\<forall>r\<in>set rs. \<forall>e\<in>set (normalEmployees c).
               \<bar>eval s (workload NVar r e) - 1\<bar> \<le> int (amountTimeSlots c)"
    and be: "\<forall>r\<in>set rsE. \<forall>e\<in>set (escalationEmployees c).
               \<bar>eval s (workload EVar r e) - 1\<bar> \<le> int (amountTimeSlots c)"
    and twE: "\<forall>e\<in>set (escalationEmployees c). \<exists>tw. targetWorkloadEscalation c e = Some tw \<and> in_int64 tw
               \<and> \<bar>eval s (workload EVar (timeSlotsFree c) e) - tw\<bar> \<le> int (length (timeSlotsFree c))"
    and twN: "\<forall>e\<in>set (normalEmployees c). \<exists>tw. targetWorkloadNormal c e = Some tw \<and> in_int64 tw
               \<and> \<bar>eval s (workload NVar (timeSlotsFree c) e) - tw\<bar> \<le> int (length (timeSlotsFree c))"
  shows "\<exists>b s'. cost_cells c m = Inr b \<and> satisfies (model b) s' \<and> agree 0 s s'"
proof -
  let ?n = "amountTimeSlots c"
  let ?free = "timeSlotsFree c"
  let ?mRN = "rmodel (rotation_loop ?n NVar (normalEmployees c) rs m)"
  let ?mRE = "rmodel (rotation_loop ?n EVar (escalationEmployees c) rsE ?mRN)"
  have nn: "normalEmployees c \<noteq> []" and ne: "escalationEmployees c \<noteq> []"
    using rn re rotations_of_succeeds by blast+
  have lf: "length ?free \<le> ?n"
    using length_filter_le [of "\<lambda>t. t \<notin> set (timeSlotsWorkday c)" "timeSlots c"]
    by (simp add: timeSlotsFree_def timeSlots_def)
  have "\<exists>b. cost_cells c m = Inr b"
    unfolding cost_cells_succeeds target_ok_def using nn ne twE twN by fastforce
  then obtain b where b: "cost_cells c m = Inr b" by blast
  from b obtain cTE mTE cT mT where
    tE: "target_cost ?n EVar ?free (targetWorkloadEscalation c) (escalationEmployees c) ?mRE
           = Inr (cTE, mTE)"
    and tN: "target_cost ?n NVar ?free (targetWorkloadNormal c) (normalEmployees c) mTE
           = Inr (cT, mT)"
    and mo: "model b = Minimize (costOverall b) mT"
    using rn re by (elim cost_cells_InrE) simp
  have e1: "extends_to m s ?mRN"
    using mb sat _ bn by (rule rotation_loop_extend) simp
  have "extends_to m s mT"
  proof (rule extends_to_trans [OF e1])
    fix s1 assume a1: "agree (length (variables m)) s s1" and s1: "satisfies ?mRN s1"
    have be1: "\<forall>r\<in>set rsE. \<forall>e\<in>set (escalationEmployees c).
               \<bar>eval s1 (workload EVar r e) - 1\<bar> \<le> int ?n"
      using be by (simp add: agree_workload [OF a1])
    have e2: "extends_to ?mRN s1 ?mRE"
      using extends_toD(1) [OF e1] s1 _ be1 by (rule rotation_loop_extend) simp
    show "extends_to ?mRN s1 mT"
    proof (rule extends_to_trans [OF e2])
      fix s2 assume a2: "agree (length (variables ?mRN)) s1 s2" and s2: "satisfies ?mRE s2"
      have ev2: "\<And>g ts e. (\<And>e t. var_below 0 (g e t)) \<Longrightarrow>
                   eval s2 (workload g ts e) = eval s (workload g ts e)"
        using agree_workload [OF a1] agree_workload [OF a2] by simp
      have twE2: "\<forall>e\<in>set (escalationEmployees c). \<exists>tw. targetWorkloadEscalation c e = Some tw \<and> in_int64 tw
               \<and> \<bar>eval s2 (workload EVar ?free e) - tw\<bar> \<le> int (length ?free)"
        using twE by (simp add: ev2)
      from target_cost_extend [OF extends_toD(1) [OF e2] s2 _ ne lf twE2] tE
      have e3: "extends_to ?mRE s2 mTE" by simp
      show "extends_to ?mRE s2 mT"
      proof (rule extends_to_trans [OF e3])
        fix s3 assume a3: "agree (length (variables ?mRE)) s2 s3" and s3: "satisfies mTE s3"
        have ev3: "\<And>g ts e. (\<And>e t. var_below 0 (g e t)) \<Longrightarrow>
                   eval s3 (workload g ts e) = eval s (workload g ts e)"
          using ev2 agree_workload [OF a3] by simp
        have twN3: "\<forall>e\<in>set (normalEmployees c). \<exists>tw. targetWorkloadNormal c e = Some tw \<and> in_int64 tw
               \<and> \<bar>eval s3 (workload NVar ?free e) - tw\<bar> \<le> int (length ?free)"
          using twN by (simp add: ev3)
        from target_cost_extend [OF extends_toD(1) [OF e3] s3 _ nn lf twN3] tN
        show "extends_to mTE s3 mT" by simp
      qed
    qed
  qed
  then obtain s' where "agree (length (variables m)) s s'" and "satisfies mT s'"
    by (auto simp: extends_to_def)
  then have "agree 0 s s'" and "satisfies (model b) s'"
    by (simp_all add: agree_weaken mo satisfies_Minimize)
  with b show ?thesis by blast
qed

lemma workload_abs_bound:
  assumes dom: "\<forall>t\<in>set r. 0 \<le> s (g e t) \<and> s (g e t) \<le> 1" and r: "r \<noteq> []" "length r \<le> n"
  shows "\<bar>eval s (workload g r e) - 1\<bar> \<le> int n"
proof -
  have "0 \<le> (\<Sum>t\<leftarrow>r. s (g e t)) \<and> (\<Sum>t\<leftarrow>r. s (g e t)) \<le> int (length r)"
    using dom by (rule sum_list_01_bounds)
  moreover have "1 \<le> length r" using r(1) by (cases r) auto
  ultimately show ?thesis using r(2) unfolding eval_workload by linarith
qed

text \<open>
  An assignment of the hard constraints extends to the whole model when both pools have a
  member, every member has a target, and no member's free-slot workload is further from the
  target than the number of free slots.
\<close>

lemma build_extend:
  assumes h: "hard_cells c = Inr m" and sat: "satisfies m s"
    and nn: "normalEmployees c \<noteq> []" and ne: "escalationEmployees c \<noteq> []"
    and twE: "\<forall>e\<in>set (escalationEmployees c). \<exists>tw. targetWorkloadEscalation c e = Some tw \<and> in_int64 tw
               \<and> \<bar>(\<Sum>t\<leftarrow>timeSlotsFree c. s (EVar e t)) - tw\<bar> \<le> int (length (timeSlotsFree c))"
    and twN: "\<forall>e\<in>set (normalEmployees c). \<exists>tw. targetWorkloadNormal c e = Some tw \<and> in_int64 tw
               \<and> \<bar>(\<Sum>t\<leftarrow>timeSlotsFree c. s (NVar e t)) - tw\<bar> \<le> int (length (timeSlotsFree c))"
  shows "\<exists>b s'. build c = Inr b \<and> satisfies (model b) s'
           \<and> (\<forall>e t. s' (NVar e t) = s (NVar e t)) \<and> (\<forall>e t. s' (EVar e t) = s (EVar e t))"
proof -
  note hs = satisfies_hard_cells [OF h, of s, THEN iffD1, OF sat]
  obtain rs where rn: "rotations_of (timeSlots c) (normalEmployees c) = Inr rs"
    using nn rotations_of_succeeds by blast
  obtain rsE where re: "rotations_of (timeSlots c) (escalationEmployees c) = Inr rsE"
    using ne rotations_of_succeeds by blast
  note rnf = rotations_of_Inr(2) [OF rn [unfolded timeSlots_def]]
  note ref = rotations_of_Inr(2) [OF re [unfolded timeSlots_def]]
  have bn: "\<forall>r\<in>set rs. \<forall>e\<in>set (normalEmployees c).
               \<bar>eval s (workload NVar r e) - 1\<bar> \<le> int (amountTimeSlots c)"
  proof (intro ballI)
    fix r e assume r: "r \<in> set rs" and e: "e \<in> set (normalEmployees c)"
    have "\<forall>t\<in>set r. 0 \<le> s (NVar e t) \<and> s (NVar e t) \<le> 1"
      using hs e rnf r by (meson atLeastLessThan_iff subsetD)
    then show "\<bar>eval s (workload NVar r e) - 1\<bar> \<le> int (amountTimeSlots c)"
      using rnf r by (intro workload_abs_bound) auto
  qed
  have be: "\<forall>r\<in>set rsE. \<forall>e\<in>set (escalationEmployees c).
               \<bar>eval s (workload EVar r e) - 1\<bar> \<le> int (amountTimeSlots c)"
  proof (intro ballI)
    fix r e assume r: "r \<in> set rsE" and e: "e \<in> set (escalationEmployees c)"
    have "\<forall>t\<in>set r. 0 \<le> s (EVar e t) \<and> s (EVar e t) \<le> 1"
      using hs e ref r by (meson atLeastLessThan_iff subsetD)
    then show "\<bar>eval s (workload EVar r e) - 1\<bar> \<le> int (amountTimeSlots c)"
      using ref r by (intro workload_abs_bound) auto
  qed
  from cost_cells_extend [OF model_below_hard_cells [OF h] sat rn re bn be]
  obtain b s' where "cost_cells c m = Inr b" and "satisfies (model b) s'" and "agree 0 s s'"
    using twE twN by (auto simp: eval_workload)
  then show ?thesis
    using h agree_grid [of 0 s s'] by (auto simp: build_def)
qed

subsection \<open>Targets within the number of free slots\<close>

lemma free_workload_bounds:
  assumes "\<forall>t<amountTimeSlots c. 0 \<le> s (g e t) \<and> s (g e t) \<le> 1"
  shows "0 \<le> (\<Sum>t\<leftarrow>timeSlotsFree c. s (g e t))"
    and "(\<Sum>t\<leftarrow>timeSlotsFree c. s (g e t)) \<le> int (length (timeSlotsFree c))"
proof -
  have "\<forall>t\<in>set (timeSlotsFree c). 0 \<le> s (g e t) \<and> s (g e t) \<le> 1"
    using assms by (auto simp: timeSlotsFree_def timeSlots_def)
  then show "0 \<le> (\<Sum>t\<leftarrow>timeSlotsFree c. s (g e t))"
    and "(\<Sum>t\<leftarrow>timeSlotsFree c. s (g e t)) \<le> int (length (timeSlotsFree c))"
    using sum_list_01_bounds [of "timeSlotsFree c" "\<lambda>t. s (g e t)"] by auto
qed

lemma build_extend_targets:
  assumes h: "hard_cells c = Inr m" and sat: "satisfies m s"
    and nn: "normalEmployees c \<noteq> []" and ne: "escalationEmployees c \<noteq> []"
    and twE: "\<forall>e\<in>set (escalationEmployees c). \<exists>tw. targetWorkloadEscalation c e = Some tw
               \<and> in_int64 tw \<and> 0 \<le> tw \<and> tw \<le> int (length (timeSlotsFree c))"
    and twN: "\<forall>e\<in>set (normalEmployees c). \<exists>tw. targetWorkloadNormal c e = Some tw
               \<and> in_int64 tw \<and> 0 \<le> tw \<and> tw \<le> int (length (timeSlotsFree c))"
  shows "\<exists>b s'. build c = Inr b \<and> satisfies (model b) s'
           \<and> (\<forall>e t. s' (NVar e t) = s (NVar e t)) \<and> (\<forall>e t. s' (EVar e t) = s (EVar e t))"
proof (rule build_extend [OF h sat nn ne])
  note hs = satisfies_hard_cells [OF h, of s, THEN iffD1, OF sat]
  show "\<forall>e\<in>set (escalationEmployees c). \<exists>tw. targetWorkloadEscalation c e = Some tw \<and> in_int64 tw
               \<and> \<bar>(\<Sum>t\<leftarrow>timeSlotsFree c. s (EVar e t)) - tw\<bar> \<le> int (length (timeSlotsFree c))"
  proof
    fix e assume e: "e \<in> set (escalationEmployees c)"
    with twE obtain tw where tw: "targetWorkloadEscalation c e = Some tw"
      "in_int64 tw" "0 \<le> tw" "tw \<le> int (length (timeSlotsFree c))" by blast
    have "\<forall>t<amountTimeSlots c. 0 \<le> s (EVar e t) \<and> s (EVar e t) \<le> 1" using hs e by blast
    from free_workload_bounds [of c s EVar e, OF this] tw
    show "\<exists>tw. targetWorkloadEscalation c e = Some tw \<and> in_int64 tw
               \<and> \<bar>(\<Sum>t\<leftarrow>timeSlotsFree c. s (EVar e t)) - tw\<bar> \<le> int (length (timeSlotsFree c))"
      by auto
  qed
  show "\<forall>e\<in>set (normalEmployees c). \<exists>tw. targetWorkloadNormal c e = Some tw \<and> in_int64 tw
               \<and> \<bar>(\<Sum>t\<leftarrow>timeSlotsFree c. s (NVar e t)) - tw\<bar> \<le> int (length (timeSlotsFree c))"
  proof
    fix e assume e: "e \<in> set (normalEmployees c)"
    with twN obtain tw where tw: "targetWorkloadNormal c e = Some tw"
      "in_int64 tw" "0 \<le> tw" "tw \<le> int (length (timeSlotsFree c))" by blast
    have "\<forall>t<amountTimeSlots c. 0 \<le> s (NVar e t) \<and> s (NVar e t) \<le> 1" using hs e by blast
    from free_workload_bounds [of c s NVar e, OF this] tw
    show "\<exists>tw. targetWorkloadNormal c e = Some tw \<and> in_int64 tw
               \<and> \<bar>(\<Sum>t\<leftarrow>timeSlotsFree c. s (NVar e t)) - tw\<bar> \<le> int (length (timeSlotsFree c))"
      by auto
  qed
qed

subsection \<open>The notebook's input and the one-slot input as whole models\<close>

lemma notebook_free: "timeSlotsFree notebook = [0, 3, 4, 7, 8, 11, 12, 15]"
  by (simp add: timeSlotsFree_def timeSlots_def notebook_def upt_16)

lemma notebook_hard: "hard_cells notebook = Inr (projr (hard_cells notebook))"
  using nb_ok by (cases "hard_cells notebook") auto

lemma notebook_full:
  "\<exists>b s. build notebook = Inr b \<and> satisfies (model b) s
     \<and> (\<forall>e t. s (NVar e t) = notebook_output (NVar e t))
     \<and> (\<forall>e t. s (EVar e t) = notebook_output (EVar e t))"
  by (rule build_extend_targets [OF notebook_hard nb_sat])
     (simp_all add: notebook_free, simp_all add: notebook_def init_targets_apply in_int64_def)

lemma solo_hard: "\<exists>m. hard_cells solo = Inr m \<and> satisfies m (schedule [0] [1])"
proof -
  have "\<exists>m. hard_cells solo = Inr m"
    unfolding hard_cells_succeeds by (simp add: solo_def init_constraints_apply)
  then obtain m where m: "hard_cells solo = Inr m" by blast
  have "satisfies m (schedule [0] [1])"
    unfolding satisfies_hard_cells [OF m]
    by (simp add: solo_def schedule_def init_constraints_apply)
  with m show ?thesis by blast
qed

lemma solo_full:
  "\<exists>b s. build solo = Inr b \<and> satisfies (model b) s"
proof -
  from solo_hard obtain m where m: "hard_cells solo = Inr m" and s: "satisfies m (schedule [0] [1])"
    by blast
  have "\<exists>b s'. build solo = Inr b \<and> satisfies (model b) s'
           \<and> (\<forall>e t. s' (NVar e t) = schedule [0] [1] (NVar e t))
           \<and> (\<forall>e t. s' (EVar e t) = schedule [0] [1] (EVar e t))"
    by (rule build_extend_targets [OF m s])
       (simp_all add: solo_def init_targets_apply timeSlotsFree_def timeSlots_def in_int64_def)
  then show ?thesis by blast
qed

subsection \<open>The last slot\<close>

text \<open>
  C2. The rule that nobody is their own escalation is emitted for the slots of
  \<open>range(amountTimeSlots-1)\<close> only, so the last slot is left out: the schedule printed by the
  notebook satisfies every hard constraint and has employee 2, a member of both pools,
  as normal and as escalation in slot 15; it extends to an assignment of the whole model.
\<close>
theorem self_escalation_at_last_slot:
  "\<not> isl (hard_cells notebook)
   \<and> satisfies (projr (hard_cells notebook)) notebook_output
   \<and> 2 \<in> set (normalEmployees notebook) \<and> 2 \<in> set (escalationEmployees notebook)
   \<and> 15 < amountTimeSlots notebook
   \<and> notebook_output (NVar 2 15) = 1 \<and> notebook_output (EVar 2 15) = 1
   \<and> (\<exists>b s. build notebook = Inr b \<and> satisfies (model b) s
         \<and> s (NVar 2 15) = 1 \<and> s (EVar 2 15) = 1)"
proof -
  have v: "notebook_output (NVar 2 15) = 1" "notebook_output (EVar 2 15) = 1"
    by (simp_all add: notebook_output_def schedule_def)
  from notebook_full obtain b s where "build notebook = Inr b" and "satisfies (model b) s"
    and "\<forall>e t. s (NVar e t) = notebook_output (NVar e t)"
    and "\<forall>e t. s (EVar e t) = notebook_output (EVar e t)"
    by blast
  then have "\<exists>b s. build notebook = Inr b \<and> satisfies (model b) s
         \<and> s (NVar 2 15) = 1 \<and> s (EVar 2 15) = 1"
    using v by auto
  then show ?thesis
    using nb_ok nb_sat v by (simp add: notebook_def)
qed

subsection \<open>Claims about the cost terms\<close>

text \<open>
  C5. In every assignment satisfying the whole model, each role's rotation cost is at most
  the stated bound \<open>|R| * 2 * (|P| - 1)\<close>, with \<open>R\<close> the role's rotation groups and \<open>P\<close>
  its pool, and each role's target-workload cost is at most the number of free slots.
\<close>
theorem cost_terms_within_bounds:
  assumes "build c = Inr b" and "satisfies (model b) s"
  shows "eval s (costRotations b) \<le> costRotationsMax b
       \<and> costRotationsMax b = int (length (rotations b)) * 2 * (int (length (normalEmployees c)) - 1)
       \<and> eval s (costRotationsEscalation b) \<le> costRotationsEscalationMax b
       \<and> costRotationsEscalationMax b
           = int (length (rotationsEscalation b)) * 2 * (int (length (escalationEmployees c)) - 1)
       \<and> s (costTargetWorkload b) \<le> int (length (timeSlotsFree c))
       \<and> s (costTargetWorkloadEscalation b) \<le> int (length (timeSlotsFree c))
       \<and> costTargetWorkloadEscalationMax b = int (length (timeSlotsFree c))"
proof -
  note bs = build_sound [OF assms]
  from bs(1) obtain m where h: "hard_cells c = Inr m" and sat: "satisfies m s" by blast
  note hs = satisfies_hard_cells [OF h, of s, THEN iffD1, OF sat]
  from assms(1) obtain m' where cc: "cost_cells c m' = Inr b" by (rule build_InrE)
  then have mx: "costRotationsMax b = rotations_max (rotations b) (normalEmployees c)"
      "costRotationsEscalationMax b = rotations_max (rotationsEscalation b) (escalationEmployees c)"
      "costTargetWorkloadEscalationMax b = int (length (timeSlotsFree c))"
    by (auto elim!: cost_cells_InrE)
  have rn: "rotations_of [0..<amountTimeSlots c] (normalEmployees c) = Inr (rotations b)"
    and re: "rotations_of [0..<amountTimeSlots c] (escalationEmployees c) = Inr (rotationsEscalation b)"
    using bs(2,3) by (simp_all add: timeSlots_def)
  have "eval s (costRotations b) \<le> costRotationsMax b"
    unfolding bs(4) mx(1)
    by (rule rotation_cost_bound(1) [OF _ _ rn]) (use hs in auto)
  moreover have "eval s (costRotationsEscalation b) \<le> costRotationsEscalationMax b"
    unfolding bs(5) mx(2)
    by (rule rotation_cost_bound(1) [OF _ _ re]) (use hs in auto)
  ultimately show ?thesis
    using bs(8,9) mx by (simp add: rotations_max_def)
qed

theorem cost_terms_within_bounds_witness:
  "\<exists>b s. build notebook = Inr b \<and> satisfies (model b) s
     \<and> eval s (costRotations b) \<le> costRotationsMax b
     \<and> eval s (costRotationsEscalation b) \<le> costRotationsEscalationMax b
     \<and> s (costTargetWorkload b) \<le> int (length (timeSlotsFree notebook))
     \<and> s (costTargetWorkloadEscalation b) \<le> int (length (timeSlotsFree notebook))"
proof -
  from notebook_full obtain b s where b: "build notebook = Inr b" and s: "satisfies (model b) s"
    by blast
  from cost_terms_within_bounds [OF b s] b s show ?thesis by blast
qed

lemma rotation_step_dom:
  "dom (perEmployee (rotation_step n g r e st)) = insert (e, r) (dom (perEmployee st))"
  by (auto simp: rotation_step_def split: prod.splits)

lemma rotation_inner_dom:
  "dom (perEmployee (fold (rotation_step n g r) es st))
     = dom (perEmployee st) \<union> {(e, r) | e. e \<in> set es}"
  by (induction es arbitrary: st) (auto simp: rotation_step_dom)

lemma rotation_loop_dom:
  "dom (perEmployee (rotation_loop n g es rs m)) = {(e, r). e \<in> set es \<and> r \<in> set rs}"
proof -
  have "\<And>st. dom (perEmployee (fold (\<lambda>r. fold (rotation_step n g r) es) rs st))
     = dom (perEmployee st) \<union> {(e, r). e \<in> set es \<and> r \<in> set rs}"
    by (induction rs) (auto simp: rotation_inner_dom)
  then show ?thesis by (simp add: rotation_loop_def)
qed

lemma build_per_employee_dom:
  assumes "build c = Inr b"
  shows "dom (costRotationPerEmployee b) = {(e, r). e \<in> set (normalEmployees c) \<and> r \<in> set (rotations b)}"
    and "dom (costRotationEscalationPerEmployee b)
           = {(e, r). e \<in> set (escalationEmployees c) \<and> r \<in> set (rotationsEscalation b)}"
proof -
  from assms obtain m where cc: "cost_cells c m = Inr b" by (rule build_InrE)
  show "dom (costRotationPerEmployee b) = {(e, r). e \<in> set (normalEmployees c) \<and> r \<in> set (rotations b)}"
    using cc by (elim cost_cells_InrE) (simp add: rotation_loop_dom)
  show "dom (costRotationEscalationPerEmployee b)
           = {(e, r). e \<in> set (escalationEmployees c) \<and> r \<in> set (rotationsEscalation b)}"
    using cc by (elim cost_cells_InrE) (simp add: rotation_loop_dom)
qed

lemma single_member_rotation:
  assumes cover: "\<forall>t<n. (\<Sum>e\<leftarrow>es. s (g e t)) = 1"
    and es: "length es = 1" and rs: "rotations_of [0..<n] es = Inr rs" and r: "r \<in> set rs"
    and e: "e \<in> set es"
  shows "length r = 1" and "\<bar>eval s (workload g r e) - 1\<bar> = 0"
proof -
  from es e have es': "es = [e]" by (cases es) auto
  from rotations_of_Inr(2) [OF rs] r es
  have "r \<noteq> []" "length r \<le> 1" "set r \<subseteq> {0..<n}" by auto
  then obtain t where rt: "r = [t]" and t: "t < n"
    by (cases r) auto
  show "length r = 1" by (simp add: rt)
  from cover t have "s (g e t) = 1" by (simp add: es')
  then show "\<bar>eval s (workload g r e) - 1\<bar> = 0" by (simp add: eval_workload rt)
qed

lemma single_member_rotation_sum:
  assumes cover: "\<forall>t<n. (\<Sum>e\<leftarrow>es. s (g e t)) = 1"
    and es: "length es = 1"
  shows "\<exists>rs. rotations_of [0..<n] es = Inr rs
          \<and> (\<forall>r\<in>set rs. length r = 1 \<and> (\<forall>e\<in>set es. eval s (workload g r e) = 1))
          \<and> (\<Sum>r\<leftarrow>rs. \<Sum>e\<leftarrow>es. \<bar>eval s (workload g r e) - 1\<bar>) = 0"
proof -
  from es have "es \<noteq> []" by auto
  then obtain rs where rs: "rotations_of [0..<n] es = Inr rs"
    using rotations_of_succeeds by blast
  note z = single_member_rotation [OF cover es rs]
  from es obtain e0 where e0: "e0 \<in> set es" by (cases es) auto
  have "length r = 1 \<and> (\<forall>e\<in>set es. eval s (workload g r e) = 1)" if "r \<in> set rs" for r
    using z(1) [OF that e0] z(2) [OF that] by auto
  moreover have "(\<Sum>r\<leftarrow>rs. \<Sum>e\<leftarrow>es. \<bar>eval s (workload g r e) - 1\<bar>) = (\<Sum>r\<leftarrow>rs. \<Sum>e\<leftarrow>es. 0)"
    using z(2) by (intro arg_cong [where f = sum_list] map_cong refl) simp
  ultimately show ?thesis using rs by simp
qed

subsection \<open>The objective\<close>

lemma upt_3: "[0..<3] = [0, 1, 2]"
  by code_simp

lemmas all_less_3 = all_less_list [OF upt_3]

lemma all_less_2: "(\<forall>t<2::nat. P t) \<longleftrightarrow> P 0 \<and> P 1"
proof -
  have "[0..<2] = [0, 1::nat]" by code_simp
  from all_less_list [OF this, of P] show ?thesis by simp
qed

lemma trio_rotations:
  "rotations_of (timeSlots trio) (normalEmployees trio) = Inr [[0, 1, 2]]"
  "rotations_of (timeSlots trio) (escalationEmployees trio) = Inr [[0, 1], [2]]"
  unfolding timeSlots_def trio_def config.simps by code_simp+

lemma trio_free: "timeSlotsFree trio = []"
  by (simp add: timeSlotsFree_def timeSlots_def trio_def upt_3)

lemma trio_hard: "hard_cells trio = Inr (projr (hard_cells trio))"
proof -
  have "\<exists>m. hard_cells trio = Inr m"
    unfolding hard_cells_succeeds by (simp add: trio_def init_constraints_apply)
  then show ?thesis by auto
qed

lemma trio_extend:
  assumes "satisfies (projr (hard_cells trio)) s"
  shows "\<exists>b s'. build trio = Inr b \<and> satisfies (model b) s'
     \<and> (\<forall>e t. s' (NVar e t) = s (NVar e t)) \<and> (\<forall>e t. s' (EVar e t) = s (EVar e t))"
  by (rule build_extend_targets [OF trio_hard assms])
     (simp_all add: trio_free, simp_all add: trio_def init_targets_apply in_int64_def)

lemma trio_schedules:
  "satisfies (projr (hard_cells trio)) (schedule [0, 1, 0] [3, 4, 3])"
  "satisfies (projr (hard_cells trio)) (schedule [0, 1, 2] [3, 3, 3])"
  "satisfies (projr (hard_cells trio)) (schedule [0, 1, 2] [3, 4, 3])"
  unfolding satisfies_hard_cells [OF trio_hard]
  by (simp_all add: trio_def schedule_def init_constraints_apply all_less_3 all_less_2)

lemma trio_costs:
  assumes b: "build trio = Inr b" and s: "satisfies (model b) s"
    and gn: "\<forall>e t. s (NVar e t) = schedule ns es (NVar e t)"
    and ge: "\<forall>e t. s (EVar e t) = schedule ns es (EVar e t)"
  shows "eval s (costRotations b)
           = (\<Sum>e\<leftarrow>[0, 1, 2]. \<bar>(\<Sum>t\<leftarrow>[0, 1, 2]. schedule ns es (NVar e t)) - 1\<bar>)"
    and "eval s (costRotationsEscalation b)
           = (\<Sum>r\<leftarrow>[[0, 1], [2]]. \<Sum>e\<leftarrow>[3, 4]. \<bar>(\<Sum>t\<leftarrow>r. schedule ns es (EVar e t)) - 1\<bar>)"
    and "eval s (costOverall b) = eval s (costRotationsEscalation b) + 4 * eval s (costRotations b)"
proof -
  note bs = build_sound [OF b s]
  have r: "rotations b = [[0, 1, 2]]" "rotationsEscalation b = [[0, 1], [2]]"
    using bs(2,3) trio_rotations by simp_all
  show "eval s (costRotations b)
           = (\<Sum>e\<leftarrow>[0, 1, 2]. \<bar>(\<Sum>t\<leftarrow>[0, 1, 2]. schedule ns es (NVar e t)) - 1\<bar>)"
    unfolding bs(4) r eval_workload using gn by (simp add: trio_def)
  show "eval s (costRotationsEscalation b)
           = (\<Sum>r\<leftarrow>[[0, 1], [2]]. \<Sum>e\<leftarrow>[3, 4]. \<bar>(\<Sum>t\<leftarrow>r. schedule ns es (EVar e t)) - 1\<bar>)"
    unfolding bs(5) r eval_workload using ge by (simp add: trio_def)
  from b obtain m where cc: "cost_cells trio m = Inr b" by (rule build_InrE)
  have mx: "costRotationsEscalationMax b = 4"
    using cc r by (elim cost_cells_InrE) (simp add: rotations_max_def trio_def)
  have ov: "costOverall b =
           overall (costRotationsEscalation b) (costRotationsEscalationMax b)
             (costRotations b) (costRotationsMax b)
             (costTargetWorkloadEscalation b) (costTargetWorkloadEscalationMax b)
             (costTargetWorkload b)"
    using cc by (elim cost_cells_InrE)
  have z: "s (costTargetWorkload b) = 0" "s (costTargetWorkloadEscalation b) = 0"
    using bs(8,9) by (simp_all add: trio_free)
  show "eval s (costOverall b) = eval s (costRotationsEscalation b) + 4 * eval s (costRotations b)"
    by (simp add: ov eval_overall z mx)
qed

text \<open>
  C1, as the claim states it, fails. On three slots with normal pool 0, 1, 2 and escalation
  pool 3, 4, the schedule normal 0, 1, 0 with escalation 3, 4, 3 has escalation rotation
  cost 1 and objective 9; the schedule normal 0, 1, 2 with escalation 3, 3, 3 has
  escalation rotation cost 3 and objective 3. Both satisfy the whole model: the assignment
  with the strictly smaller first cost has the strictly larger objective.
\<close>
theorem escalation_rotation_cost_not_first:
  "\<exists>b s s'. build trio = Inr b \<and> satisfies (model b) s \<and> satisfies (model b) s'
     \<and> eval s (costRotationsEscalation b) = 1 \<and> eval s' (costRotationsEscalation b) = 3
     \<and> eval s (costRotationsEscalation b) < eval s' (costRotationsEscalation b)
     \<and> eval s (costOverall b) = 9 \<and> eval s' (costOverall b) = 3
     \<and> \<not> eval s (costOverall b) < eval s' (costOverall b)"
proof -
  obtain b s where b: "build trio = Inr b" and s: "satisfies (model b) s"
    and gn: "\<forall>e t. s (NVar e t) = schedule [0, 1, 0] [3, 4, 3] (NVar e t)"
    and ge: "\<forall>e t. s (EVar e t) = schedule [0, 1, 0] [3, 4, 3] (EVar e t)"
    using trio_extend [OF trio_schedules(1)] by blast
  obtain b' s' where b': "build trio = Inr b'" and s': "satisfies (model b') s'"
    and gn': "\<forall>e t. s' (NVar e t) = schedule [0, 1, 2] [3, 3, 3] (NVar e t)"
    and ge': "\<forall>e t. s' (EVar e t) = schedule [0, 1, 2] [3, 3, 3] (EVar e t)"
    using trio_extend [OF trio_schedules(2)] by blast
  have bb: "b' = b" using b b' by simp
  note c = trio_costs [OF b s gn ge]
  note c' = trio_costs [OF b s' [unfolded bb] gn' ge']
  have v: "eval s (costRotationsEscalation b) = 1" "eval s (costRotations b) = 2"
    unfolding c by (simp_all add: schedule_def)
  have v': "eval s' (costRotationsEscalation b) = 3" "eval s' (costRotations b) = 0"
    unfolding c' by (simp_all add: schedule_def)
  have o: "eval s (costOverall b) = 9" "eval s' (costOverall b) = 3"
    unfolding c(3) c'(3) v v' by simp_all
  show ?thesis
    by (rule exI [of _ b], rule exI [of _ s], rule exI [of _ s'])
       (simp add: b s s' [unfolded bb] v v' o)
qed

lemma build_cost_ranges:
  assumes "build c = Inr b" and "satisfies (model b) s"
  shows "0 \<le> eval s (costRotationsEscalation b)"
    and "eval s (costRotationsEscalation b) \<le> costRotationsEscalationMax b"
    and "0 \<le> eval s (costRotations b)"
    and "eval s (costRotations b) \<le> costRotationsMax b"
    and "0 \<le> s (costTargetWorkloadEscalation b)"
    and "s (costTargetWorkloadEscalation b) \<le> costTargetWorkloadEscalationMax b"
    and "0 \<le> s (costTargetWorkload b)"
    and "s (costTargetWorkload b) \<le> int (length (timeSlotsFree c))"
    and "eval s (costOverall b) =
           eval s (costRotationsEscalation b)
           + costRotationsEscalationMax b * eval s (costRotations b)
           + costRotationsEscalationMax b * costRotationsMax b * s (costTargetWorkloadEscalation b)
           + costRotationsEscalationMax b * costRotationsMax b * costTargetWorkloadEscalationMax b
               * s (costTargetWorkload b)"
proof -
  note bs = build_sound [OF assms]
  from bs(1) obtain m where h: "hard_cells c = Inr m" and sat: "satisfies m s" by blast
  note hs = satisfies_hard_cells [OF h, of s, THEN iffD1, OF sat]
  from assms(1) obtain m' where cc: "cost_cells c m' = Inr b" by (rule build_InrE)
  then have mx: "costRotationsMax b = rotations_max (rotations b) (normalEmployees c)"
      "costRotationsEscalationMax b = rotations_max (rotationsEscalation b) (escalationEmployees c)"
      "costTargetWorkloadEscalationMax b = int (length (timeSlotsFree c))"
    by (auto elim!: cost_cells_InrE)
  have ov: "costOverall b =
           overall (costRotationsEscalation b) (costRotationsEscalationMax b)
             (costRotations b) (costRotationsMax b)
             (costTargetWorkloadEscalation b) (costTargetWorkloadEscalationMax b)
             (costTargetWorkload b)"
    using cc by (elim cost_cells_InrE)
  have rn: "rotations_of [0..<amountTimeSlots c] (normalEmployees c) = Inr (rotations b)"
    and re: "rotations_of [0..<amountTimeSlots c] (escalationEmployees c) = Inr (rotationsEscalation b)"
    using bs(2,3) by (simp_all add: timeSlots_def)
  have dn: "\<forall>e\<in>set (normalEmployees c). \<forall>t<amountTimeSlots c. 0 \<le> s (NVar e t) \<and> s (NVar e t) \<le> 1"
    and de: "\<forall>e\<in>set (escalationEmployees c). \<forall>t<amountTimeSlots c. 0 \<le> s (EVar e t) \<and> s (EVar e t) \<le> 1"
    and cn: "\<forall>t<amountTimeSlots c. (\<Sum>e\<leftarrow>normalEmployees c. s (NVar e t)) = 1"
    and ce: "\<forall>t<amountTimeSlots c. (\<Sum>e\<leftarrow>escalationEmployees c. s (EVar e t)) = 1"
    using hs by auto
  show "0 \<le> eval s (costRotationsEscalation b)"
    unfolding bs(5) by (rule rotation_cost_bound(2) [OF de ce re])
  show "eval s (costRotationsEscalation b) \<le> costRotationsEscalationMax b"
    unfolding bs(5) mx(2) by (rule rotation_cost_bound(1) [OF de ce re])
  show "0 \<le> eval s (costRotations b)"
    unfolding bs(4) by (rule rotation_cost_bound(2) [OF dn cn rn])
  show "eval s (costRotations b) \<le> costRotationsMax b"
    unfolding bs(4) mx(1) by (rule rotation_cost_bound(1) [OF dn cn rn])
  show "0 \<le> s (costTargetWorkloadEscalation b)"
    and "s (costTargetWorkloadEscalation b) \<le> costTargetWorkloadEscalationMax b"
    and "0 \<le> s (costTargetWorkload b)"
    and "s (costTargetWorkload b) \<le> int (length (timeSlotsFree c))"
    using bs(8,9) mx(3) by simp_all
  show "eval s (costOverall b) =
           eval s (costRotationsEscalation b)
           + costRotationsEscalationMax b * eval s (costRotations b)
           + costRotationsEscalationMax b * costRotationsMax b * s (costTargetWorkloadEscalation b)
           + costRotationsEscalationMax b * costRotationsMax b * costTargetWorkloadEscalationMax b
               * s (costTargetWorkload b)"
    by (simp add: ov eval_overall)
qed

lemma weighted_sum_monotone:
  fixes c1 c2 c3 c4 d1 d2 d3 d4 m1 m2 m3 :: int
  assumes "0 \<le> m1" "0 \<le> m2" "0 \<le> m3"
    and "c1 < d1" "c2 \<le> d2" "c3 \<le> d3" "c4 \<le> d4"
  shows "c1 + m1 * c2 + m1 * m2 * c3 + m1 * m2 * m3 * c4
       < d1 + m1 * d2 + m1 * m2 * d3 + m1 * m2 * m3 * d4"
proof -
  have "m1 * c2 \<le> m1 * d2" using assms by (intro mult_left_mono) auto
  moreover have "m1 * m2 * c3 \<le> m1 * m2 * d3" using assms by (intro mult_left_mono) auto
  moreover have "m1 * m2 * m3 * c4 \<le> m1 * m2 * m3 * d4" using assms by (intro mult_left_mono) auto
  ultimately show ?thesis using assms(4) by linarith
qed

lemma weighted_sum_second_term:
  fixes c1 c2 d1 d2 m1 r :: int
  assumes "0 \<le> m1" "0 \<le> d1" "c1 \<le> m1" "c2 < d2"
  shows "c1 + m1 * c2 + r \<le> d1 + m1 * d2 + r"
proof -
  have "m1 * (c2 + 1) \<le> m1 * d2" using assms by (intro mult_left_mono) auto
  then have "m1 * c2 + m1 \<le> m1 * d2" by (simp add: algebra_simps)
  then show ?thesis using assms by linarith
qed

text \<open>
  C1, amended. The objective is the sum of the four costs with the weights
  \<open>1, M1, M1 * M2, M1 * M2 * M3\<close>, each cost lying between 0 and its bound in every
  assignment satisfying the model. Of two such assignments, one whose four costs are none
  larger and whose escalation rotation cost is strictly smaller has the strictly smaller
  objective; and one with a strictly smaller normal rotation cost and equal target-workload
  costs has an objective that is not larger, whatever the escalation rotation costs are.
\<close>
theorem objective_weighting:
  assumes "build c = Inr b" and "satisfies (model b) s" and "satisfies (model b) s'"
  shows "eval s (costOverall b) =
           eval s (costRotationsEscalation b)
           + costRotationsEscalationMax b * eval s (costRotations b)
           + costRotationsEscalationMax b * costRotationsMax b * s (costTargetWorkloadEscalation b)
           + costRotationsEscalationMax b * costRotationsMax b * costTargetWorkloadEscalationMax b
               * s (costTargetWorkload b)
       \<and> 0 \<le> eval s (costRotationsEscalation b)
       \<and> eval s (costRotationsEscalation b) \<le> costRotationsEscalationMax b
       \<and> 0 \<le> eval s (costRotations b) \<and> eval s (costRotations b) \<le> costRotationsMax b
       \<and> 0 \<le> s (costTargetWorkloadEscalation b)
       \<and> s (costTargetWorkloadEscalation b) \<le> costTargetWorkloadEscalationMax b
       \<and> 0 \<le> s (costTargetWorkload b)
       \<and> s (costTargetWorkload b) \<le> int (length (timeSlotsFree c))
       \<and> (eval s (costRotationsEscalation b) < eval s' (costRotationsEscalation b)
            \<and> eval s (costRotations b) \<le> eval s' (costRotations b)
            \<and> s (costTargetWorkloadEscalation b) \<le> s' (costTargetWorkloadEscalation b)
            \<and> s (costTargetWorkload b) \<le> s' (costTargetWorkload b)
          \<longrightarrow> eval s (costOverall b) < eval s' (costOverall b))
       \<and> (eval s (costRotations b) < eval s' (costRotations b)
            \<and> s (costTargetWorkloadEscalation b) = s' (costTargetWorkloadEscalation b)
            \<and> s (costTargetWorkload b) = s' (costTargetWorkload b)
          \<longrightarrow> eval s (costOverall b) \<le> eval s' (costOverall b))"
proof -
  note r = build_cost_ranges [OF assms(1,2)]
  note r' = build_cost_ranges [OF assms(1,3)]
  have m: "0 \<le> costRotationsEscalationMax b" "0 \<le> costRotationsMax b"
    "0 \<le> costTargetWorkloadEscalationMax b"
    using r(1-6) by linarith+
  have first: "eval s (costOverall b) < eval s' (costOverall b)"
    if "eval s (costRotationsEscalation b) < eval s' (costRotationsEscalation b)"
      "eval s (costRotations b) \<le> eval s' (costRotations b)"
      "s (costTargetWorkloadEscalation b) \<le> s' (costTargetWorkloadEscalation b)"
      "s (costTargetWorkload b) \<le> s' (costTargetWorkload b)"
    unfolding r(9) r'(9) using m that by (rule weighted_sum_monotone)
  have second: "eval s (costOverall b) \<le> eval s' (costOverall b)"
    if "eval s (costRotations b) < eval s' (costRotations b)"
      "s (costTargetWorkloadEscalation b) = s' (costTargetWorkloadEscalation b)"
      "s (costTargetWorkload b) = s' (costTargetWorkload b)"
    unfolding r(9) r'(9) that(2,3)
    using weighted_sum_second_term [OF m(1) r'(1) r(2) that(1)] by (simp add: add.assoc)
  show ?thesis using r first second by blast
qed

theorem objective_weighting_witness:
  "\<exists>b s s' s''. build trio = Inr b
     \<and> satisfies (model b) s \<and> satisfies (model b) s' \<and> satisfies (model b) s''
     \<and> eval s (costRotationsEscalation b) < eval s' (costRotationsEscalation b)
     \<and> eval s (costRotations b) \<le> eval s' (costRotations b)
     \<and> s (costTargetWorkloadEscalation b) \<le> s' (costTargetWorkloadEscalation b)
     \<and> s (costTargetWorkload b) \<le> s' (costTargetWorkload b)
     \<and> eval s (costOverall b) < eval s' (costOverall b)
     \<and> eval s' (costRotations b) < eval s'' (costRotations b)
     \<and> s' (costTargetWorkloadEscalation b) = s'' (costTargetWorkloadEscalation b)
     \<and> s' (costTargetWorkload b) = s'' (costTargetWorkload b)
     \<and> eval s' (costOverall b) \<le> eval s'' (costOverall b)"
proof -
  obtain b s where b: "build trio = Inr b" and s: "satisfies (model b) s"
    and gn: "\<forall>e t. s (NVar e t) = schedule [0, 1, 2] [3, 4, 3] (NVar e t)"
    and ge: "\<forall>e t. s (EVar e t) = schedule [0, 1, 2] [3, 4, 3] (EVar e t)"
    using trio_extend [OF trio_schedules(3)] by blast
  obtain b' s' where b': "build trio = Inr b'" and s': "satisfies (model b') s'"
    and gn': "\<forall>e t. s' (NVar e t) = schedule [0, 1, 2] [3, 3, 3] (NVar e t)"
    and ge': "\<forall>e t. s' (EVar e t) = schedule [0, 1, 2] [3, 3, 3] (EVar e t)"
    using trio_extend [OF trio_schedules(2)] by blast
  obtain b'' s'' where b'': "build trio = Inr b''" and s'': "satisfies (model b'') s''"
    and gn'': "\<forall>e t. s'' (NVar e t) = schedule [0, 1, 0] [3, 4, 3] (NVar e t)"
    and ge'': "\<forall>e t. s'' (EVar e t) = schedule [0, 1, 0] [3, 4, 3] (EVar e t)"
    using trio_extend [OF trio_schedules(1)] by blast
  have bb: "b' = b" "b'' = b" using b b' b'' by simp_all
  note t = s' [unfolded bb] and u = s'' [unfolded bb]
  note c = trio_costs [OF b s gn ge]
  note c' = trio_costs [OF b t gn' ge']
  note c'' = trio_costs [OF b u gn'' ge'']
  have v: "eval s (costRotationsEscalation b) = 1" "eval s (costRotations b) = 0"
    unfolding c by (simp_all add: schedule_def)
  have v': "eval s' (costRotationsEscalation b) = 3" "eval s' (costRotations b) = 0"
    unfolding c' by (simp_all add: schedule_def)
  have v'': "eval s'' (costRotations b) = 2"
    unfolding c'' by (simp_all add: schedule_def)
  have z: "x (costTargetWorkloadEscalation b) = 0 \<and> x (costTargetWorkload b) = 0"
    if "satisfies (model b) x" for x
    using build_sound(8,9) [OF b that] by (simp add: trio_free)
  note w1 = objective_weighting [OF b s t]
  note w2 = objective_weighting [OF b t u]
  show ?thesis
    by (rule exI [of _ b], rule exI [of _ s], rule exI [of _ s'], rule exI [of _ s''])
       (use w1 w2 b s t u v v' v'' z [OF s] z [OF t] z [OF u] in simp)
qed

subsection \<open>Targets and feasibility\<close>

lemma greedy_hard: "hard_cells greedy = Inr (projr (hard_cells greedy))"
proof -
  have "\<exists>m. hard_cells greedy = Inr m"
    unfolding hard_cells_succeeds by (simp add: greedy_def solo_def init_constraints_apply)
  then show ?thesis by auto
qed

lemma greedy_build: "build greedy = Inr (projr (build greedy))"
proof -
  have "\<exists>b. build greedy = Inr b"
    unfolding build_succeeds
    by (simp add: greedy_def solo_def init_constraints_apply init_targets_apply
          target_ok_def in_int64_def)
  then show ?thesis by auto
qed

text \<open>
  C3, as the claim states it, fails. With one free slot, normal pool 0 and escalation pool
  1, the hard constraints are satisfied by assigning both; with the escalation target 5
  for employee 1 the whole model is built and has no satisfying assignment, because
  \<open>workload - 5\<close> has to lie in \<open>[-1, 1]\<close>.
\<close>
theorem large_target_infeasible:
  "\<not> isl (hard_cells greedy) \<and> feasible (projr (hard_cells greedy))
   \<and> targetWorkloadEscalation greedy 1 = Some 5
   \<and> \<not> isl (build greedy) \<and> \<not> feasible (model (projr (build greedy)))"
proof -
  have h: "\<not> isl (hard_cells greedy)" using greedy_hard by (metis sum.disc(2))
  have "satisfies (projr (hard_cells greedy)) (schedule [0] [1])"
    unfolding satisfies_hard_cells [OF greedy_hard]
    by (simp add: greedy_def solo_def schedule_def init_constraints_apply)
  then have f: "feasible (projr (hard_cells greedy))" unfolding feasible_def by blast
  have b: "\<not> isl (build greedy)" using greedy_build by (metis sum.disc(2))
  have "\<not> satisfies (model (projr (build greedy))) s" for s
  proof
    assume s: "satisfies (model (projr (build greedy))) s"
    note bs = build_sound [OF greedy_build s]
    from bs(1) greedy_hard have "satisfies (projr (hard_cells greedy)) s" by auto
    then have "s (EVar 1 0) \<le> 1"
      unfolding satisfies_hard_cells [OF greedy_hard]
      by (simp add: greedy_def solo_def)
    moreover have "\<bar>eval s (workload EVar (timeSlotsFree greedy) 1) - 5\<bar> \<le> 1"
      using bs(13) by (simp add: greedy_def solo_def)
    then have "\<bar>s (EVar 1 0) - 5\<bar> \<le> 1"
      by (simp add: eval_workload timeSlotsFree_def timeSlots_def greedy_def solo_def)
    ultimately show False by linarith
  qed
  then have n: "\<not> feasible (model (projr (build greedy)))" unfolding feasible_def by blast
  have "targetWorkloadEscalation greedy 1 = Some 5" by (simp add: greedy_def)
  with h f b n show ?thesis by blast
qed

text \<open>
  C3, amended. Targets between 0 and the number of free slots, within the solver's 64-bit
  integers, never make the model infeasible: when both pools are non-empty, every pool
  member has such a target and the hard constraints are satisfiable, the whole model, with
  the cost-defining constraints, is built and satisfiable.
\<close>
theorem targets_within_free_slots_feasible:
  assumes "hard_cells c = Inr m" and "feasible m"
    and "normalEmployees c \<noteq> []" and "escalationEmployees c \<noteq> []"
    and "\<forall>e\<in>set (escalationEmployees c). \<exists>tw. targetWorkloadEscalation c e = Some tw
           \<and> in_int64 tw \<and> 0 \<le> tw \<and> tw \<le> int (length (timeSlotsFree c))"
    and "\<forall>e\<in>set (normalEmployees c). \<exists>tw. targetWorkloadNormal c e = Some tw
           \<and> in_int64 tw \<and> 0 \<le> tw \<and> tw \<le> int (length (timeSlotsFree c))"
  shows "\<exists>b. build c = Inr b \<and> feasible (model b)"
proof -
  from assms(2) obtain s where s: "satisfies m s" unfolding feasible_def by blast
  from build_extend_targets [OF assms(1) s assms(3-6)]
  show ?thesis unfolding feasible_def by blast
qed

theorem targets_within_free_slots_feasible_witness:
  "hard_cells notebook = Inr (projr (hard_cells notebook))
   \<and> feasible (projr (hard_cells notebook))
   \<and> normalEmployees notebook \<noteq> [] \<and> escalationEmployees notebook \<noteq> []
   \<and> (\<exists>b. build notebook = Inr b \<and> feasible (model b))"
proof -
  have f: "feasible (projr (hard_cells notebook))"
    unfolding feasible_def using nb_sat by blast
  have ne: "normalEmployees notebook \<noteq> []" "escalationEmployees notebook \<noteq> []"
    by (simp_all add: notebook_def)
  have tE: "\<forall>e\<in>set (escalationEmployees notebook). \<exists>tw. targetWorkloadEscalation notebook e = Some tw
           \<and> in_int64 tw \<and> 0 \<le> tw \<and> tw \<le> int (length (timeSlotsFree notebook))"
    unfolding notebook_free by (simp add: notebook_def init_targets_apply in_int64_def)
  have tN: "\<forall>e\<in>set (normalEmployees notebook). \<exists>tw. targetWorkloadNormal notebook e = Some tw
           \<and> in_int64 tw \<and> 0 \<le> tw \<and> tw \<le> int (length (timeSlotsFree notebook))"
    unfolding notebook_free by (simp add: notebook_def init_targets_apply in_int64_def)
  from targets_within_free_slots_feasible [OF notebook_hard f ne tE tN] notebook_hard f ne
  show ?thesis by blast
qed

subsection \<open>Feasibility of the hard constraints\<close>

lemma upt_2: "[0..<2] = [0, 1]"
  by code_simp

lemma lonely_hard: "hard_cells lonely = Inr (projr (hard_cells lonely))"
proof -
  have "\<exists>m. hard_cells lonely = Inr m"
    unfolding hard_cells_succeeds by (simp add: lonely_def init_constraints_apply)
  then show ?thesis by auto
qed

text \<open>
  C4, as the claim states it, fails. With two slots and a normal pool of one employee,
  nothing is forced, so in every slot a pool member is not forced off and none is forced
  on; coverage assigns the employee to both slots and the no-immediate-repeat rule forbids
  it: the hard constraints have no satisfying assignment.
\<close>
theorem single_normal_employee_infeasible:
  "forced_ok (normalEmployeeConstraints lonely) (normalEmployees lonely) (amountTimeSlots lonely)
   \<and> forced_ok (escalationEmployeeConstraints lonely) (escalationEmployees lonely) (amountTimeSlots lonely)
   \<and> \<not> isl (hard_cells lonely) \<and> \<not> feasible (projr (hard_cells lonely))"
proof -
  have a: "forced_ok (normalEmployeeConstraints lonely) (normalEmployees lonely) (amountTimeSlots lonely)"
    "forced_ok (escalationEmployeeConstraints lonely) (escalationEmployees lonely) (amountTimeSlots lonely)"
    by (simp_all add: forced_ok_def lonely_def init_constraints_apply)
  have h: "\<not> isl (hard_cells lonely)" using lonely_hard by (metis sum.disc(2))
  have "\<not> satisfies (projr (hard_cells lonely)) s" for s
    unfolding satisfies_hard_cells [OF lonely_hard]
    by (simp add: lonely_def all_less_2)
  then have "\<not> feasible (projr (hard_cells lonely))" unfolding feasible_def by blast
  with a h show ?thesis by blast
qed

lemma sum_list_indicator:
  assumes "distinct es" and "p \<in> set es"
  shows "(\<Sum>e\<leftarrow>es. if e = p then 1 else 0) = (1::int)"
  using assms
proof (induction es)
  case Nil
  then show ?case by simp
next
  case (Cons x es)
  show ?case
  proof (cases "x = p")
    case True
    then have "p \<notin> set es" using Cons.prems(1) by simp
    then have "(\<Sum>e\<leftarrow>es. if e = p then 1 else 0) = (0::int)"
      by (induction es) auto
    with True show ?thesis by simp
  next
    case False
    then show ?thesis using Cons by auto
  qed
qed

lemma forced_ok_choice:
  assumes "forced_ok ec es n"
  shows "\<exists>p. \<forall>t<n. p t \<in> set es \<and> ec (p t, t) \<noteq> Some (Some False)
            \<and> (\<forall>e\<in>set es. ec (e, t) = Some (Some True) \<longrightarrow> e = p t)"
proof -
  have "\<exists>x. x \<in> set es \<and> ec (x, t) \<noteq> Some (Some False)
            \<and> (\<forall>e\<in>set es. ec (e, t) = Some (Some True) \<longrightarrow> e = x)" if t: "t < n" for t
  proof (cases "\<exists>e\<in>set es. ec (e, t) = Some (Some True)")
    case True
    then obtain x where x: "x \<in> set es" "ec (x, t) = Some (Some True)" by blast
    then have "\<forall>e\<in>set es. ec (e, t) = Some (Some True) \<longrightarrow> e = x"
      using assms t unfolding forced_ok_def by blast
    with x show ?thesis by auto
  next
    case False
    from assms t obtain x where "x \<in> set es" "ec (x, t) \<noteq> Some (Some False)"
      unfolding forced_ok_def by blast
    with False show ?thesis by blast
  qed
  then have "\<forall>t. \<exists>x. t < n \<longrightarrow> x \<in> set es \<and> ec (x, t) \<noteq> Some (Some False)
            \<and> (\<forall>e\<in>set es. ec (e, t) = Some (Some True) \<longrightarrow> e = x)"
    by blast
  then show ?thesis by (rule choice [THEN exE]) blast
qed

text \<open>
  C4, amended. For every input whose pools list each member once and in which, for every
  slot and each role, some pool member is not forced off and no two are forced on, the
  availability and exactly-one coverage constraints together are satisfiable. (The
  no-self-escalation and no-immediate-repeat constraints can still exclude every
  assignment.)
\<close>
theorem availability_and_coverage_feasible:
  assumes m: "cell3 c (cell2 c CpModel) = Inr m"
    and dn: "distinct (normalEmployees c)" and de: "distinct (escalationEmployees c)"
    and fn: "forced_ok (normalEmployeeConstraints c) (normalEmployees c) (amountTimeSlots c)"
    and fe: "forced_ok (escalationEmployeeConstraints c) (escalationEmployees c) (amountTimeSlots c)"
  shows "feasible (cell4 c m)"
proof -
  from forced_ok_choice [OF fn] obtain pn where
    pn: "\<forall>t<amountTimeSlots c. pn t \<in> set (normalEmployees c)
           \<and> normalEmployeeConstraints c (pn t, t) \<noteq> Some (Some False)
           \<and> (\<forall>e\<in>set (normalEmployees c). normalEmployeeConstraints c (e, t) = Some (Some True) \<longrightarrow> e = pn t)"
    by blast
  from forced_ok_choice [OF fe] obtain pe where
    pe: "\<forall>t<amountTimeSlots c. pe t \<in> set (escalationEmployees c)
           \<and> escalationEmployeeConstraints c (pe t, t) \<noteq> Some (Some False)
           \<and> (\<forall>e\<in>set (escalationEmployees c). escalationEmployeeConstraints c (e, t) = Some (Some True) \<longrightarrow> e = pe t)"
    by blast
  define s where "s = (\<lambda>v. case v of
      NVar e t \<Rightarrow> if e = pn t then 1 else 0
    | EVar e t \<Rightarrow> if e = pe t then 1 else (0::int)
    | IVar k \<Rightarrow> 0)"
  have sn: "\<And>e t. s (NVar e t) = (if e = pn t then 1 else 0)"
    and se: "\<And>e t. s (EVar e t) = (if e = pe t then 1 else 0)"
    by (simp_all add: s_def)
  from m obtain mn where
    mn: "respect NVar (normalEmployeeConstraints c) (normalEmployees c) (timeSlots c) (cell2 c CpModel) = Inr mn"
    and me: "respect EVar (escalationEmployeeConstraints c) (escalationEmployees c) (timeSlots c) mn = Inr m"
    by (auto simp: cell3_def split: sum.splits)
  have ts: "set (timeSlots c) = {0..<amountTimeSlots c}" by (simp add: timeSlots_def)
  have cov: "(\<Sum>e\<leftarrow>normalEmployees c. s (NVar e t)) = 1 \<and> (\<Sum>e\<leftarrow>escalationEmployees c. s (EVar e t)) = 1"
    if "t < amountTimeSlots c" for t
    unfolding sn se using that pn pe dn de by (simp add: sum_list_indicator)
  have avn: "s (NVar e t) = (if b then 1 else 0)"
    if "e \<in> set (normalEmployees c)" "t < amountTimeSlots c"
      "normalEmployeeConstraints c (e, t) = Some (Some b)" for e t b
    using that pn unfolding sn by (cases b) auto
  have ave: "s (EVar e t) = (if b then 1 else 0)"
    if "e \<in> set (escalationEmployees c)" "t < amountTimeSlots c"
      "escalationEmployeeConstraints c (e, t) = Some (Some b)" for e t b
    using that pe unfolding se by (cases b) auto
  have "satisfies (cell4 c m) s"
    unfolding satisfies_cell4 satisfies_respect [OF me] satisfies_respect [OF mn] satisfies_cell2 ts
    using satisfies_CpModel cov avn ave by (auto simp: sn se)
  then show ?thesis unfolding feasible_def by blast
qed

theorem availability_and_coverage_feasible_witness:
  "cell3 notebook (cell2 notebook CpModel) = Inr (projr (cell3 notebook (cell2 notebook CpModel)))
   \<and> distinct (normalEmployees notebook) \<and> distinct (escalationEmployees notebook)
   \<and> forced_ok (normalEmployeeConstraints notebook) (normalEmployees notebook) (amountTimeSlots notebook)
   \<and> forced_ok (escalationEmployeeConstraints notebook) (escalationEmployees notebook)
        (amountTimeSlots notebook)
   \<and> feasible (cell4 notebook (projr (cell3 notebook (cell2 notebook CpModel))))"
proof -
  have "\<exists>m. cell3 notebook (cell2 notebook CpModel) = Inr m"
    using notebook_hard by (auto simp: hard_cells_def split: sum.splits)
  then have m: "cell3 notebook (cell2 notebook CpModel)
      = Inr (projr (cell3 notebook (cell2 notebook CpModel)))" by auto
  have d: "distinct (normalEmployees notebook)" "distinct (escalationEmployees notebook)"
    by (simp_all add: notebook_def)
  have fn: "forced_ok (normalEmployeeConstraints notebook) (normalEmployees notebook)
      (amountTimeSlots notebook)"
    unfolding forced_ok_def by (simp add: notebook_def init_constraints_apply all_less_16)
  have fe: "forced_ok (escalationEmployeeConstraints notebook) (escalationEmployees notebook)
      (amountTimeSlots notebook)"
    unfolding forced_ok_def by (simp add: notebook_def init_constraints_apply all_less_16)
  from availability_and_coverage_feasible [OF m d fn fe] m d fn fe show ?thesis by blast
qed

subsection \<open>The absolute difference\<close>

lemma pair_hard: "hard_cells pair = Inr (projr (hard_cells pair))"
proof -
  have "\<exists>m. hard_cells pair = Inr m"
    unfolding hard_cells_succeeds by (simp add: pair_def init_constraints_apply)
  then show ?thesis by auto
qed

lemma pair_schedules:
  "satisfies (projr (hard_cells pair)) (schedule [0, 1] [3, 3])"
  "satisfies (projr (hard_cells pair)) (schedule [0, 1] [2, 2])"
  unfolding satisfies_hard_cells [OF pair_hard]
  by (simp_all add: pair_def schedule_def init_constraints_apply all_less_2)

lemma pair_free: "timeSlotsFree pair = [0, 1]"
  by (simp add: timeSlotsFree_def timeSlots_def pair_def upt_2)

lemma pair_full: "\<exists>b s. build pair = Inr b \<and> satisfies (model b) s"
proof -
  have "\<exists>b s'. build pair = Inr b \<and> satisfies (model b) s'
           \<and> (\<forall>e t. s' (NVar e t) = schedule [0, 1] [2, 2] (NVar e t))
           \<and> (\<forall>e t. s' (EVar e t) = schedule [0, 1] [2, 2] (EVar e t))"
    by (rule build_extend [OF pair_hard pair_schedules(2)])
       (simp_all add: pair_free,
        simp_all add: pair_def init_targets_apply in_int64_def schedule_def)
  then show ?thesis by blast
qed

lemma model_below_one_bool: "model_below (NewBoolVar (NVar e t) CpModel)"
  by (simp add: model_below_def NewBoolVar_def CpModel_def)

text \<open>
  C10, as the claim states its second half, fails. On a model with one decision variable
  \<open>x\<close>, \<open>calcAbsMinus(x, 2)\<close> with \<open>amountTimeSlots = 1\<close>: the assignment \<open>x = 0\<close> of the
  model before the call has \<open>|x - 2| = 2 > 1\<close>, and the model after the call is satisfied
  with \<open>x = 1\<close>. In the notebook's own use, with two free slots and the target 3 for
  escalation employee 2: the hard constraints have an assignment that gives the employee
  no slot, so \<open>|workload - 3| = 3 > 2\<close>, and the whole model is built and satisfiable.
\<close>
theorem abs_difference_may_exceed_in_feasible_model:
  "satisfies (NewBoolVar (NVar 0 0) CpModel) (\<lambda>v. 0)
   \<and> int 1 < \<bar>eval (\<lambda>v. 0) (VarE (NVar 0 0)) - eval (\<lambda>v. 0) (Const 2)\<bar>
   \<and> feasible (snd (calcAbsMinus 1 (VarE (NVar 0 0)) (Const 2) (NewBoolVar (NVar 0 0) CpModel)))
   \<and> \<not> isl (hard_cells pair)
   \<and> satisfies (projr (hard_cells pair)) (schedule [0, 1] [3, 3])
   \<and> targetWorkloadEscalation pair 2 = Some 3
   \<and> int (amountTimeSlots pair)
       < \<bar>eval (schedule [0, 1] [3, 3]) (workload EVar (timeSlotsFree pair) 2) - 3\<bar>
   \<and> \<not> isl (build pair) \<and> feasible (model (projr (build pair)))"
proof -
  have a: "satisfies (NewBoolVar (NVar 0 0) CpModel) (\<lambda>v. 0)"
    by (simp add: satisfies_def NewBoolVar_def CpModel_def)
  have b: "int 1 < \<bar>eval (\<lambda>v. 0) (VarE (NVar 0 0)) - eval (\<lambda>v. 0) (Const 2)\<bar>"
    by simp
  have "satisfies (snd (calcAbsMinus 1 (VarE (NVar 0 0)) (Const 2) (NewBoolVar (NVar 0 0) CpModel)))
          (\<lambda>v. case v of IVar k \<Rightarrow> if k = 1 then - 1 else 1 | _ \<Rightarrow> 1)"
    by (simp add: calcAbsMinus_expand NewBoolVar_def CpModel_def satisfies_def)
  then have c: "feasible (snd (calcAbsMinus 1 (VarE (NVar 0 0)) (Const 2)
      (NewBoolVar (NVar 0 0) CpModel)))"
    unfolding feasible_def by blast
  have d: "\<not> isl (hard_cells pair)" using pair_hard by (metis sum.disc(2))
  have e: "targetWorkloadEscalation pair 2 = Some 3" by (simp add: pair_def)
  have f: "int (amountTimeSlots pair)
       < \<bar>eval (schedule [0, 1] [3, 3]) (workload EVar (timeSlotsFree pair) 2) - 3\<bar>"
    by (simp add: pair_free eval_workload schedule_def) (simp add: pair_def)
  from pair_full obtain bb s where bb: "build pair = Inr bb" and s: "satisfies (model bb) s"
    by blast
  then have g: "\<not> isl (build pair)" and h: "feasible (model (projr (build pair)))"
    unfolding feasible_def by auto
  from a b c d pair_schedules(1) e f g h show ?thesis by blast
qed

text \<open>
  C10, amended. In every assignment that satisfies the model after \<open>calcAbsMinus(m1, m2)\<close>,
  the two first auxiliary variables equal \<open>m1 - m2\<close> and \<open>m2 - m1\<close>, the returned variable is
  their maximum, which is \<open>|m1 - m2|\<close>; all three are declared with the domain
  \<open>[-amountTimeSlots, amountTimeSlots]\<close>. An assignment under which \<open>|m1 - m2|\<close> exceeds
  \<open>amountTimeSlots\<close> satisfies no such model: the encoding excludes the value instead of
  clamping it. The model after the call has no satisfying assignment at all when every
  assignment of the model before the call is of that kind; and when one of them keeps
  \<open>|m1 - m2|\<close> within \<open>amountTimeSlots\<close>, the model after the call is satisfiable, provided
  the model before the call and the two expressions mention no integer variable that has
  not been created yet.
\<close>
theorem calcAbsMinus_absolute_difference:
  assumes "calcAbsMinus n m1 m2 m = (v, m')"
  shows "(satisfies m' s \<longrightarrow>
            s (IVar (length (variables m))) = eval s m1 - eval s m2
          \<and> s (IVar (length (variables m) + 1)) = eval s m2 - eval s m1
          \<and> s v = max (s (IVar (length (variables m)))) (s (IVar (length (variables m) + 1)))
          \<and> s v = \<bar>eval s m1 - eval s m2\<bar>
          \<and> - int n \<le> s v \<and> s v \<le> int n)
       \<and> variables m' = variables m @
            [(IVar (length (variables m)), - int n, int n),
             (IVar (length (variables m) + 1), - int n, int n),
             (v, - int n, int n)]
       \<and> (int n < \<bar>eval s m1 - eval s m2\<bar> \<longrightarrow> \<not> satisfies m' s)
       \<and> ((\<forall>s. satisfies m s \<longrightarrow> int n < \<bar>eval s m1 - eval s m2\<bar>) \<longrightarrow> \<not> feasible m')
       \<and> (model_below m \<and> expr_below (length (variables m)) m1
            \<and> expr_below (length (variables m)) m2
            \<and> (\<exists>s. satisfies m s \<and> \<bar>eval s m1 - eval s m2\<bar> \<le> int n)
          \<longrightarrow> feasible m')"
proof -
  note a = satisfies_calcAbsMinus [OF assms]
  have "variables m' = variables m @
            [(IVar (length (variables m)), - int n, int n),
             (IVar (length (variables m) + 1), - int n, int n),
             (v, - int n, int n)]"
    using assms unfolding calcAbsMinus_expand by auto
  moreover have "\<not> feasible m'" if "\<forall>s. satisfies m s \<longrightarrow> int n < \<bar>eval s m1 - eval s m2\<bar>"
    unfolding feasible_def using a that by fastforce
  moreover have "feasible m'"
    if "model_below m" "expr_below (length (variables m)) m1"
      "expr_below (length (variables m)) m2"
      "\<exists>s. satisfies m s \<and> \<bar>eval s m1 - eval s m2\<bar> \<le> int n"
  proof -
    from that(4) obtain s0 where "satisfies m s0" "\<bar>eval s0 m1 - eval s0 m2\<bar> \<le> int n" by blast
    from calcAbsMinus_extend(1) [OF assms that(1-3) this]
    show ?thesis unfolding extends_to_def feasible_def by blast
  qed
  ultimately show ?thesis using a [of s] by auto
qed

theorem calcAbsMinus_absolute_difference_witness:
  "calcAbsMinus 4 (VarE (NVar 0 0)) (Const 1) (NewBoolVar (NVar 0 0) CpModel)
     = (IVar 3, snd (calcAbsMinus 4 (VarE (NVar 0 0)) (Const 1) (NewBoolVar (NVar 0 0) CpModel)))
   \<and> satisfies (snd (calcAbsMinus 4 (VarE (NVar 0 0)) (Const 1) (NewBoolVar (NVar 0 0) CpModel)))
       abs_demo
   \<and> abs_demo (IVar 3) = \<bar>eval abs_demo (VarE (NVar 0 0)) - eval abs_demo (Const 1)\<bar>
   \<and> satisfies (NewBoolVar (NVar 0 0) CpModel) abs_demo
   \<and> \<bar>eval abs_demo (VarE (NVar 0 0)) - eval abs_demo (Const 1)\<bar> \<le> int 4
   \<and> feasible (snd (calcAbsMinus 4 (VarE (NVar 0 0)) (Const 1) (NewBoolVar (NVar 0 0) CpModel)))
   \<and> int 4 < \<bar>eval abs_demo (VarE (NVar 0 0)) - eval abs_demo (Const 9)\<bar>
   \<and> \<not> satisfies (snd (calcAbsMinus 4 (VarE (NVar 0 0)) (Const 9) (NewBoolVar (NVar 0 0) CpModel)))
         abs_demo
   \<and> \<not> feasible (snd (calcAbsMinus 4 (VarE (NVar 0 0)) (Const 9) (NewBoolVar (NVar 0 0) CpModel)))"
proof -
  let ?m = "NewBoolVar (NVar 0 0) CpModel"
  have a: "calcAbsMinus 4 (VarE (NVar 0 0)) (Const 1) ?m
     = (IVar 3, snd (calcAbsMinus 4 (VarE (NVar 0 0)) (Const 1) ?m))"
    by (simp add: calcAbsMinus_expand NewBoolVar_def CpModel_def)
  have b: "calcAbsMinus 4 (VarE (NVar 0 0)) (Const 9) ?m
     = (IVar 3, snd (calcAbsMinus 4 (VarE (NVar 0 0)) (Const 9) ?m))"
    by (simp add: calcAbsMinus_expand NewBoolVar_def CpModel_def)
  have sat: "satisfies (snd (calcAbsMinus 4 (VarE (NVar 0 0)) (Const 1) ?m)) abs_demo"
    by (simp add: calcAbsMinus_expand NewBoolVar_def CpModel_def satisfies_def abs_demo_def)
  have sat0: "satisfies ?m abs_demo"
    by (simp add: NewBoolVar_def CpModel_def satisfies_def abs_demo_def)
  have small: "\<bar>eval abs_demo (VarE (NVar 0 0)) - eval abs_demo (Const 1)\<bar> \<le> int 4"
    by (simp add: abs_demo_def)
  have big: "int 4 < \<bar>eval s (VarE (NVar 0 0)) - eval s (Const 9)\<bar>" if "satisfies ?m s" for s
    using that by (simp add: NewBoolVar_def CpModel_def satisfies_def)
  have below: "model_below ?m" "expr_below (length (variables ?m)) (VarE (NVar 0 0))"
    "expr_below (length (variables ?m)) (Const 1)"
    by (simp_all add: model_below_one_bool)
  note x = calcAbsMinus_absolute_difference [OF a, of abs_demo]
  note y = calcAbsMinus_absolute_difference [OF b, of abs_demo]
  have "abs_demo (IVar 3) = \<bar>eval abs_demo (VarE (NVar 0 0)) - eval abs_demo (Const 1)\<bar>"
    using x sat by blast
  moreover have "feasible (snd (calcAbsMinus 4 (VarE (NVar 0 0)) (Const 1) ?m))"
    using x below sat0 small by blast
  moreover have "\<not> satisfies (snd (calcAbsMinus 4 (VarE (NVar 0 0)) (Const 9) ?m)) abs_demo"
    using y big [OF sat0] by blast
  moreover have "\<not> feasible (snd (calcAbsMinus 4 (VarE (NVar 0 0)) (Const 9) ?m))"
    using y big by blast
  ultimately show ?thesis using a sat sat0 small big [OF sat0] by blast
qed

subsection \<open>A pool of one employee\<close>

lemma duo_hard: "hard_cells duo = Inr (projr (hard_cells duo))"
proof -
  have "\<exists>m. hard_cells duo = Inr m"
    unfolding hard_cells_succeeds by (simp add: duo_def init_constraints_apply)
  then show ?thesis by auto
qed

lemma duo_schedule: "satisfies (projr (hard_cells duo)) (schedule [0, 1, 0] [2, 2, 2])"
  unfolding satisfies_hard_cells [OF duo_hard]
  by (simp add: duo_def schedule_def init_constraints_apply all_less_3 all_less_2)

lemma duo_free: "timeSlotsFree duo = [0, 1, 2]"
  by (simp add: timeSlotsFree_def timeSlots_def duo_def upt_3)

lemma duo_rotations:
  "rotations_of (timeSlots duo) (escalationEmployees duo) = Inr [[0], [1], [2]]"
  unfolding timeSlots_def duo_def config.simps by code_simp

lemma duo_full:
  "\<exists>b s. build duo = Inr b \<and> satisfies (model b) s"
proof -
  have "\<exists>b s'. build duo = Inr b \<and> satisfies (model b) s'
           \<and> (\<forall>e t. s' (NVar e t) = schedule [0, 1, 0] [2, 2, 2] (NVar e t))
           \<and> (\<forall>e t. s' (EVar e t) = schedule [0, 1, 0] [2, 2, 2] (EVar e t))"
    by (rule build_extend_targets [OF duo_hard duo_schedule])
       (simp_all add: duo_free, simp_all add: duo_def init_targets_apply in_int64_def)
  then show ?thesis by blast
qed

text \<open>
  C9. When a role's pool has exactly one employee, every rotation group of the role has
  one slot, and in every assignment satisfying the hard constraints the pool member's
  workload in every group is 1, so every deviation \<open>|workload - 1|\<close> and their sum, the
  role's rotation cost, are 0. Accordingly, in every assignment satisfying the whole model
  the role's rotation cost expression and the cost variable of every rotation group have
  the value 0.
\<close>
theorem single_employee_rotation_cost_zero:
  "(hard_cells c = Inr m \<and> satisfies m s \<and> length (normalEmployees c) = 1 \<longrightarrow>
      (\<exists>rs. rotations_of (timeSlots c) (normalEmployees c) = Inr rs
         \<and> (\<forall>r\<in>set rs. length r = 1
               \<and> (\<forall>e\<in>set (normalEmployees c). eval s (workload NVar r e) = 1
                     \<and> \<bar>eval s (workload NVar r e) - 1\<bar> = 0))
         \<and> (\<Sum>r\<leftarrow>rs. \<Sum>e\<leftarrow>normalEmployees c. \<bar>eval s (workload NVar r e) - 1\<bar>) = 0))
   \<and> (hard_cells c = Inr m \<and> satisfies m s \<and> length (escalationEmployees c) = 1 \<longrightarrow>
      (\<exists>rs. rotations_of (timeSlots c) (escalationEmployees c) = Inr rs
         \<and> (\<forall>r\<in>set rs. length r = 1
               \<and> (\<forall>e\<in>set (escalationEmployees c). eval s (workload EVar r e) = 1
                     \<and> \<bar>eval s (workload EVar r e) - 1\<bar> = 0))
         \<and> (\<Sum>r\<leftarrow>rs. \<Sum>e\<leftarrow>escalationEmployees c. \<bar>eval s (workload EVar r e) - 1\<bar>) = 0))
   \<and> (build c = Inr b \<and> satisfies (model b) s' \<and> length (normalEmployees c) = 1 \<longrightarrow>
        eval s' (costRotations b) = 0
      \<and> (\<forall>r\<in>set (rotations b). length r = 1 \<and> (\<forall>e\<in>set (normalEmployees c).
            \<exists>v. costRotationPerEmployee b (e, r) = Some v \<and> s' v = 0)))
   \<and> (build c = Inr b \<and> satisfies (model b) s' \<and> length (escalationEmployees c) = 1 \<longrightarrow>
        eval s' (costRotationsEscalation b) = 0
      \<and> (\<forall>r\<in>set (rotationsEscalation b). length r = 1 \<and> (\<forall>e\<in>set (escalationEmployees c).
            \<exists>v. costRotationEscalationPerEmployee b (e, r) = Some v \<and> s' v = 0)))"
proof -
  have hardN: "\<exists>rs. rotations_of (timeSlots c) (normalEmployees c) = Inr rs
         \<and> (\<forall>r\<in>set rs. length r = 1
               \<and> (\<forall>e\<in>set (normalEmployees c). eval s (workload NVar r e) = 1
                     \<and> \<bar>eval s (workload NVar r e) - 1\<bar> = 0))
         \<and> (\<Sum>r\<leftarrow>rs. \<Sum>e\<leftarrow>normalEmployees c. \<bar>eval s (workload NVar r e) - 1\<bar>) = 0"
    if h: "hard_cells c = Inr m" and sat: "satisfies m s" and one: "length (normalEmployees c) = 1"
      for s
  proof -
    note hs = satisfies_hard_cells [OF h, of s, THEN iffD1, OF sat]
    then have "\<forall>t<amountTimeSlots c. (\<Sum>e\<leftarrow>normalEmployees c. s (NVar e t)) = 1" by auto
    from single_member_rotation_sum [OF this one] show ?thesis by (auto simp: timeSlots_def)
  qed
  have hardE: "\<exists>rs. rotations_of (timeSlots c) (escalationEmployees c) = Inr rs
         \<and> (\<forall>r\<in>set rs. length r = 1
               \<and> (\<forall>e\<in>set (escalationEmployees c). eval s (workload EVar r e) = 1
                     \<and> \<bar>eval s (workload EVar r e) - 1\<bar> = 0))
         \<and> (\<Sum>r\<leftarrow>rs. \<Sum>e\<leftarrow>escalationEmployees c. \<bar>eval s (workload EVar r e) - 1\<bar>) = 0"
    if h: "hard_cells c = Inr m" and sat: "satisfies m s" and one: "length (escalationEmployees c) = 1"
      for s
  proof -
    note hs = satisfies_hard_cells [OF h, of s, THEN iffD1, OF sat]
    then have "\<forall>t<amountTimeSlots c. (\<Sum>e\<leftarrow>escalationEmployees c. s (EVar e t)) = 1" by auto
    from single_member_rotation_sum [OF this one] show ?thesis by (auto simp: timeSlots_def)
  qed
  have fullN: "eval s' (costRotations b) = 0
      \<and> (\<forall>r\<in>set (rotations b). length r = 1 \<and> (\<forall>e\<in>set (normalEmployees c).
            \<exists>v. costRotationPerEmployee b (e, r) = Some v \<and> s' v = 0))"
    if b: "build c = Inr b" and sat: "satisfies (model b) s'" and one: "length (normalEmployees c) = 1"
  proof -
    note bs = build_sound [OF b sat]
    from bs(1) obtain m' where h: "hard_cells c = Inr m'" and sat': "satisfies m' s'" by blast
    note hs = satisfies_hard_cells [OF h, of s', THEN iffD1, OF sat']
    then have "\<forall>t<amountTimeSlots c. (\<Sum>e\<leftarrow>normalEmployees c. s' (NVar e t)) = 1" by auto
    from single_member_rotation_sum [OF this one] bs(2)
    have g: "\<forall>r\<in>set (rotations b). length r = 1
               \<and> (\<forall>e\<in>set (normalEmployees c). eval s' (workload NVar r e) = 1)"
      and z: "(\<Sum>r\<leftarrow>rotations b. \<Sum>e\<leftarrow>normalEmployees c. \<bar>eval s' (workload NVar r e) - 1\<bar>) = 0"
      by (auto simp: timeSlots_def)
    note dm = build_per_employee_dom [OF b]
    have "\<exists>v. costRotationPerEmployee b (e, r) = Some v \<and> s' v = 0"
      if "r \<in> set (rotations b)" "e \<in> set (normalEmployees c)" for r e
    proof -
      from that dm(1) obtain v where v: "costRotationPerEmployee b (e, r) = Some v" by auto
      with bs(6) have "s' v = \<bar>eval s' (workload NVar r e) - 1\<bar>" by (simp add: per_ok_def)
      with g that v show ?thesis by simp
    qed
    with g z show ?thesis unfolding bs(4) by blast
  qed
  have fullE: "eval s' (costRotationsEscalation b) = 0
      \<and> (\<forall>r\<in>set (rotationsEscalation b). length r = 1 \<and> (\<forall>e\<in>set (escalationEmployees c).
            \<exists>v. costRotationEscalationPerEmployee b (e, r) = Some v \<and> s' v = 0))"
    if b: "build c = Inr b" and sat: "satisfies (model b) s'"
      and one: "length (escalationEmployees c) = 1"
  proof -
    note bs = build_sound [OF b sat]
    from bs(1) obtain m' where h: "hard_cells c = Inr m'" and sat': "satisfies m' s'" by blast
    note hs = satisfies_hard_cells [OF h, of s', THEN iffD1, OF sat']
    then have "\<forall>t<amountTimeSlots c. (\<Sum>e\<leftarrow>escalationEmployees c. s' (EVar e t)) = 1" by auto
    from single_member_rotation_sum [OF this one] bs(3)
    have g: "\<forall>r\<in>set (rotationsEscalation b). length r = 1
               \<and> (\<forall>e\<in>set (escalationEmployees c). eval s' (workload EVar r e) = 1)"
      and z: "(\<Sum>r\<leftarrow>rotationsEscalation b. \<Sum>e\<leftarrow>escalationEmployees c.
                 \<bar>eval s' (workload EVar r e) - 1\<bar>) = 0"
      by (auto simp: timeSlots_def)
    note dm = build_per_employee_dom [OF b]
    have "\<exists>v. costRotationEscalationPerEmployee b (e, r) = Some v \<and> s' v = 0"
      if "r \<in> set (rotationsEscalation b)" "e \<in> set (escalationEmployees c)" for r e
    proof -
      from that dm(2) obtain v where v: "costRotationEscalationPerEmployee b (e, r) = Some v"
        by auto
      with bs(7) have "s' v = \<bar>eval s' (workload EVar r e) - 1\<bar>" by (simp add: per_ok_def)
      with g that v show ?thesis by simp
    qed
    with g z show ?thesis unfolding bs(5) by blast
  qed
  from hardN [of s] hardE [of s] fullN fullE show ?thesis by blast
qed

theorem single_employee_rotation_cost_zero_witness:
  "(\<exists>m s. hard_cells duo = Inr m \<and> satisfies m s \<and> length (escalationEmployees duo) = 1
      \<and> rotations_of (timeSlots duo) (escalationEmployees duo) = Inr [[0], [1], [2]]
      \<and> (\<Sum>r\<leftarrow>[[0], [1], [2]]. \<Sum>e\<leftarrow>escalationEmployees duo. \<bar>eval s (workload EVar r e) - 1\<bar>) = 0)
   \<and> (\<exists>b s. build duo = Inr b \<and> satisfies (model b) s
      \<and> rotationsEscalation b = [[0], [1], [2]] \<and> eval s (costRotationsEscalation b) = 0)
   \<and> (\<exists>m s. hard_cells greedy = Inr m \<and> satisfies m s \<and> length (normalEmployees greedy) = 1
      \<and> rotations_of (timeSlots greedy) (normalEmployees greedy) = Inr [[0]]
      \<and> (\<Sum>r\<leftarrow>[[0]]. \<Sum>e\<leftarrow>normalEmployees greedy. \<bar>eval s (workload NVar r e) - 1\<bar>) = 0)
   \<and> (\<exists>b s. build solo = Inr b \<and> satisfies (model b) s
      \<and> length (normalEmployees solo) = 1 \<and> eval s (costRotations b) = 0)"
proof -
  have le: "length (escalationEmployees duo) = 1" by (simp add: duo_def)
  note a = single_employee_rotation_cost_zero
    [of duo "projr (hard_cells duo)" "schedule [0, 1, 0] [2, 2, 2]", THEN conjunct2, THEN conjunct1,
      THEN mp, OF conjI [OF duo_hard conjI [OF duo_schedule le]]]
  have first: "\<exists>m s. hard_cells duo = Inr m \<and> satisfies m s \<and> length (escalationEmployees duo) = 1
      \<and> rotations_of (timeSlots duo) (escalationEmployees duo) = Inr [[0], [1], [2]]
      \<and> (\<Sum>r\<leftarrow>[[0], [1], [2]]. \<Sum>e\<leftarrow>escalationEmployees duo. \<bar>eval s (workload EVar r e) - 1\<bar>) = 0"
    using a duo_hard duo_schedule le unfolding duo_rotations by blast
  from duo_full obtain b s where b: "build duo = Inr b" and s: "satisfies (model b) s" by blast
  note c = single_employee_rotation_cost_zero
    [of duo _ _ b s, THEN conjunct2, THEN conjunct2, THEN conjunct2,
      THEN mp, OF conjI [OF b conjI [OF s le]]]
  have "rotationsEscalation b = [[0], [1], [2]]"
    using build_sound(3) [OF b s] duo_rotations by simp
  with c b s have second: "\<exists>b s. build duo = Inr b \<and> satisfies (model b) s
      \<and> rotationsEscalation b = [[0], [1], [2]] \<and> eval s (costRotationsEscalation b) = 0"
    by blast
  have gs: "satisfies (projr (hard_cells greedy)) (schedule [0] [1])"
    unfolding satisfies_hard_cells [OF greedy_hard]
    by (simp add: greedy_def solo_def schedule_def init_constraints_apply)
  have ln: "length (normalEmployees greedy) = 1" by (simp add: greedy_def solo_def)
  have gr: "rotations_of (timeSlots greedy) (normalEmployees greedy) = Inr [[0]]"
    unfolding timeSlots_def greedy_def solo_def config.simps by code_simp
  note d = single_employee_rotation_cost_zero
    [of greedy "projr (hard_cells greedy)" "schedule [0] [1]", THEN conjunct1,
      THEN mp, OF conjI [OF greedy_hard conjI [OF gs ln]]]
  have third: "\<exists>m s. hard_cells greedy = Inr m \<and> satisfies m s \<and> length (normalEmployees greedy) = 1
      \<and> rotations_of (timeSlots greedy) (normalEmployees greedy) = Inr [[0]]
      \<and> (\<Sum>r\<leftarrow>[[0]]. \<Sum>e\<leftarrow>normalEmployees greedy. \<bar>eval s (workload NVar r e) - 1\<bar>) = 0"
    using d greedy_hard gs ln unfolding gr by blast
  from solo_full obtain b' s' where b': "build solo = Inr b'" and s': "satisfies (model b') s'"
    by blast
  have l: "length (normalEmployees solo) = 1" by (simp add: solo_def)
  note e = single_employee_rotation_cost_zero
    [of solo _ _ b' s', THEN conjunct2, THEN conjunct2, THEN conjunct1,
      THEN mp, OF conjI [OF b' conjI [OF s' l]]]
  with b' s' l have fourth: "\<exists>b s. build solo = Inr b \<and> satisfies (model b) s
      \<and> length (normalEmployees solo) = 1 \<and> eval s (costRotations b) = 0"
    by blast
  from first second third fourth show ?thesis by blast
qed

subsection \<open>When construction fails\<close>











end
